theory Spec2Isabelle
  imports Complex_Main "HOL-Library.AList" "HOL-Library.Multiset"
begin

section \<open>The attendance processing effect of the admin dashboard\<close>

text \<open>
  The source is \<^verbatim>\<open>src/app/admin/index.tsx\<close>: the second \<^verbatim>\<open>useEffect\<close> of
  \<^verbatim>\<open>AdminDashboard\<close> (lines 151 to 298) groups the attendance records by user and by
  local date, pairs check-ins with check-outs day by day, sums the durations and sets three
  pieces of component state.

  Conventions of the embedding.
  \<^item> A time value, the result of \<^verbatim>\<open>new Date(x).getTime()\<close>, is an \<open>int option\<close>: the
    milliseconds since the epoch, or \<open>None\<close> for \<^verbatim>\<open>NaN\<close> (an invalid date). The field
    \<open>r_timestamp\<close> of a record holds the time value of its \<^verbatim>\<open>timestamp\<close>.
  \<^item> What depends on the JavaScript engine is a parameter, the record \<open>platform\<close>: the
    rendering of a valid time value by \<^verbatim>\<open>toLocaleDateString()\<close> (locale and time zone),
    the parsing of such a string by \<^verbatim>\<open>new Date(s)\<close>, and the arithmetic of fractional
    numbers (IEEE doubles in the source), of an arbitrary type \<open>'n\<close>. Minute counts are
    integers and are exact in the source as long as they stay below \<open>2^53\<close>.
  \<^item> The wall clock, read by \<^verbatim>\<open>new Date()\<close> on line 177, is the argument \<open>now\<close>.
  \<^item> A JavaScript object used as a dictionary is an association list in insertion order,
    which is the order of \<^verbatim>\<open>Object.keys\<close> for keys that are not array indices; user ids
    and date strings are taken not to be array indices nor names of \<^verbatim>\<open>Object.prototype\<close>.
  \<^item> Component state is passed explicitly: the effect maps the old state to the new one.
  \<^item> Records are values here and objects in the source, where \<^verbatim>\<open>indexOf\<close> compares
    references. The record that \<^verbatim>\<open>find\<close> returns is the first one in the array that
    satisfies the predicate, so its first occurrence by reference and its first occurrence
    by value are at the same index, and the splice removes the same element in both readings.
\<close>

subsection \<open>Data\<close>

text \<open>
  Modelled from the spec: the declarations of \<^verbatim>\<open>AttendanceRecord\<close>, \<^verbatim>\<open>User\<close>,
  \<^verbatim>\<open>ProcessedAttendanceRecord\<close>, \<^verbatim>\<open>UserStats\<close> and \<^verbatim>\<open>DashboardStats\<close> are imported
  from \<^verbatim>\<open>../types\<close>, which is not among the sources. The fields are those that the
  effect reads and writes, each with a prefix that tells the record; the kind of a punch
  event is the enumeration of the specification, written \<^verbatim>\<open>'check-in'\<close> and
  \<^verbatim>\<open>'check-out'\<close> in the code; a name or an email may be missing.
\<close>

datatype recordType = CheckIn | CheckOut

record AttendanceRecord =
  r_id :: string
  r_userId :: string
  r_type :: recordType
  r_timestamp :: "int option"

record User =
  u_id :: string
  u_name :: "string option"
  u_email :: "string option"
  u_checkedIn :: bool

record ProcessedAttendanceRecord =
  p_userId :: string
  p_userName :: string
  p_userEmail :: string
  p_date :: string
  p_checkIn :: "AttendanceRecord option"
  p_checkOut :: "AttendanceRecord option"
  p_duration :: "int option"

record 'n UserStats =
  s_name :: "string option"
  s_email :: "string option"
  totalMinutesToday :: int
  totalHoursToday :: 'n
  totalMinutesAllTime :: int
  totalHoursAllTime :: 'n

record 'n DashboardStats =
  totalUsers :: nat
  checkedInUsers :: nat
  todayAttendance :: nat
  avgHoursToday :: 'n

record 'n DashboardState =
  processedAttendance :: "ProcessedAttendanceRecord list"
  userStats :: "(string \<times> 'n UserStats) list"
  dashboardStats :: "'n DashboardStats"

record 'n platform =
  toLocaleDateString :: "int \<Rightarrow> string"
  parseDate :: "string \<Rightarrow> int option"
  numOfInt :: "int \<Rightarrow> 'n"
  numAdd :: "'n \<Rightarrow> 'n \<Rightarrow> 'n"
  numDiv :: "'n \<Rightarrow> 'n \<Rightarrow> 'n"
  toFixed1 :: "'n \<Rightarrow> 'n"

subsection \<open>Numbers and dates of JavaScript\<close>

text \<open>\<^verbatim>\<open>a - b\<close> and \<^verbatim>\<open>a > b\<close> on time values: \<^verbatim>\<open>NaN\<close> propagates through the
  subtraction and makes every comparison false.\<close>

definition jsSub :: "int option \<Rightarrow> int option \<Rightarrow> int option" where
  "jsSub a b = (case a of None \<Rightarrow> None
                | Some x \<Rightarrow> (case b of None \<Rightarrow> None | Some y \<Rightarrow> Some (x - y)))"

definition jsGreater :: "int option \<Rightarrow> int option \<Rightarrow> bool" where
  "jsGreater a b = (case a of None \<Rightarrow> False
                    | Some x \<Rightarrow> (case b of None \<Rightarrow> False | Some y \<Rightarrow> y < x))"

text \<open>\<^verbatim>\<open>a !== b\<close> on numbers: \<^verbatim>\<open>NaN\<close> differs from everything, itself included.\<close>

definition jsNotEqual :: "int option \<Rightarrow> int option \<Rightarrow> bool" where
  "jsNotEqual a b = (case a of None \<Rightarrow> True
                     | Some x \<Rightarrow> (case b of None \<Rightarrow> True | Some y \<Rightarrow> x \<noteq> y))"

text \<open>\<^verbatim>\<open>Math.round(ms / (1000 * 60))\<close> of an integer \<open>ms\<close>: the nearest integer, a half
  going up.\<close>

definition roundMinutes :: "int \<Rightarrow> int" where
  "roundMinutes ms = (ms + 30000) div 60000"

text \<open>\<^verbatim>\<open>m % 60\<close>: the remainder has the sign of \<open>m\<close>.\<close>

definition jsRem60 :: "int \<Rightarrow> int" where
  "jsRem60 m = (if 0 \<le> m then m mod 60 else - ((- m) mod 60))"

text \<open>\<^verbatim>\<open>Math.floor(m / 60) + (m % 60) / 60\<close>\<close>

definition hoursOfMinutes :: "'n platform \<Rightarrow> int \<Rightarrow> 'n" where
  "hoursOfMinutes P m =
     numAdd P (numOfInt P (m div 60)) (numDiv P (numOfInt P (jsRem60 m)) (numOfInt P 60))"

text \<open>\<^verbatim>\<open>new Date(record.timestamp).toLocaleDateString()\<close>: an invalid date renders as
  the string \<^verbatim>\<open>Invalid Date\<close>.\<close>

definition dateOf :: "'n platform \<Rightarrow> int option \<Rightarrow> string" where
  "dateOf P t = (case t of None \<Rightarrow> ''Invalid Date'' | Some ms \<Rightarrow> toLocaleDateString P ms)"

text \<open>\<^verbatim>\<open>x || 'Unknown'\<close> on a string that may be missing: the empty string is falsy too.\<close>

definition orUnknown :: "string option \<Rightarrow> string" where
  "orUnknown x = (case x of None \<Rightarrow> ''Unknown''
                  | Some s \<Rightarrow> if s = [] then ''Unknown'' else s)"

subsection \<open>Array operations\<close>

text \<open>
  \<^verbatim>\<open>Array.prototype.sort(cmp)\<close> is stable and puts \<open>a\<close> before \<open>b\<close> when
  \<open>cmp a b < 0\<close>; a comparator result of \<^verbatim>\<open>NaN\<close> counts as \<open>0\<close>. It is modelled as a
  stable insertion sort. For a comparator that is a consistent ordering this is the result
  of every stable sort; for an inconsistent one (possible only with \<^verbatim>\<open>NaN\<close>) the order
  is up to the engine, and only the fact that the result is a permutation is relied on.
\<close>

definition sortCompare :: "int option \<Rightarrow> int" where
  "sortCompare v = (case v of None \<Rightarrow> 0 | Some d \<Rightarrow> d)"

fun insertBy :: "('a \<Rightarrow> 'a \<Rightarrow> int) \<Rightarrow> 'a \<Rightarrow> 'a list \<Rightarrow> 'a list" where
  "insertBy cmp x [] = [x]"
| "insertBy cmp x (y # ys) = (if cmp x y \<le> 0 then x # y # ys else y # insertBy cmp x ys)"

definition jsSort :: "('a \<Rightarrow> 'a \<Rightarrow> int) \<Rightarrow> 'a list \<Rightarrow> 'a list" where
  "jsSort cmp xs = foldr (insertBy cmp) xs []"

text \<open>\<^verbatim>\<open>xs.indexOf(x)\<close>, with \<open>None\<close> for \<open>-1\<close>, and \<^verbatim>\<open>xs.splice(index, 1)\<close>.\<close>

fun indexOf :: "'a list \<Rightarrow> 'a \<Rightarrow> nat option" where
  "indexOf [] x = None"
| "indexOf (y # ys) x = (if y = x then Some 0 else map_option Suc (indexOf ys x))"

definition splice1 :: "nat \<Rightarrow> 'a list \<Rightarrow> 'a list" where
  "splice1 index xs = take index xs @ drop (Suc index) xs"

subsection \<open>Grouping (lines 154 to 169)\<close>

type_synonym buckets = "(string \<times> (string \<times> AttendanceRecord list) list) list"

definition lookupOr :: "'v \<Rightarrow> ('k \<times> 'v) list \<Rightarrow> 'k \<Rightarrow> 'v" where
  "lookupOr d al k = (case map_of al k of None \<Rightarrow> d | Some v \<Rightarrow> v)"

definition addRecord :: "'n platform \<Rightarrow> buckets \<Rightarrow> AttendanceRecord \<Rightarrow> buckets" where
  "addRecord P g record =
     (let userId = r_userId record;
          date = dateOf P (r_timestamp record);
          byDate = lookupOr [] g userId;
          bucket = lookupOr [] byDate date
      in AList.update userId (AList.update date (bucket @ [record]) byDate) g)"

definition groupRecords :: "'n platform \<Rightarrow> AttendanceRecord list \<Rightarrow> buckets" where
  "groupRecords P attendanceRecords = foldl (addRecord P) [] attendanceRecords"

subsection \<open>Pairing within one day (lines 187 to 256)\<close>

definition cmpTimestamp :: "AttendanceRecord \<Rightarrow> AttendanceRecord \<Rightarrow> int" where
  "cmpTimestamp a b = sortCompare (jsSub (r_timestamp a) (r_timestamp b))"

definition isMatch :: "AttendanceRecord \<Rightarrow> AttendanceRecord \<Rightarrow> bool" where
  "isMatch record r =
     (r_type r = CheckOut \<and> jsGreater (r_timestamp r) (r_timestamp record))"

text \<open>The entry of a check-in (lines 203 to 219). When both ends are present the
  check-out was found by \<open>isMatch\<close>, so both time values are valid: the subtraction in
  \<open>entryDuration\<close> never gives \<open>None\<close>, which would stand for a \<^verbatim>\<open>NaN\<close> duration.\<close>

definition entryDuration :: "AttendanceRecord \<Rightarrow> AttendanceRecord option \<Rightarrow> int option" where
  "entryDuration record matchingCheckOut =
     (case matchingCheckOut of None \<Rightarrow> None
      | Some out \<Rightarrow> map_option roundMinutes (jsSub (r_timestamp out) (r_timestamp record)))"

definition checkInEntry ::
  "User \<Rightarrow> string \<Rightarrow> string \<Rightarrow> AttendanceRecord \<Rightarrow> AttendanceRecord option
     \<Rightarrow> ProcessedAttendanceRecord" where
  "checkInEntry user userId date record matchingCheckOut =
     \<lparr>p_userId = userId, p_userName = orUnknown (u_name user),
      p_userEmail = orUnknown (u_email user), p_date = date,
      p_checkIn = Some record, p_checkOut = matchingCheckOut,
      p_duration = entryDuration record matchingCheckOut\<rparr>"

definition checkOutEntry ::
  "User \<Rightarrow> string \<Rightarrow> string \<Rightarrow> AttendanceRecord \<Rightarrow> ProcessedAttendanceRecord" where
  "checkOutEntry user userId date record =
     \<lparr>p_userId = userId, p_userName = orUnknown (u_name user),
      p_userEmail = orUnknown (u_email user), p_date = date,
      p_checkIn = None, p_checkOut = Some record, p_duration = None\<rparr>"

text \<open>The state of the first loop: the array \<open>dayRecords\<close>, which the loop shrinks while
  it runs over it, the entries pushed so far and the two running totals of the user.\<close>

record pairState =
  dayRecords :: "AttendanceRecord list"
  checkInsAndOuts :: "ProcessedAttendanceRecord list"
  userTotalMinutesAllTime :: int
  userTotalMinutesToday :: int

definition removeMatched :: "AttendanceRecord option \<Rightarrow> AttendanceRecord list \<Rightarrow> AttendanceRecord list" where
  "removeMatched matchingCheckOut recs =
     (case matchingCheckOut of None \<Rightarrow> recs
      | Some out \<Rightarrow> (case indexOf recs out of None \<Rightarrow> recs | Some index \<Rightarrow> splice1 index recs))"

definition addMinutes :: "int option \<Rightarrow> int \<Rightarrow> int" where
  "addMinutes duration acc = (case duration of None \<Rightarrow> acc | Some d \<Rightarrow> acc + d)"

definition pairStep ::
  "User \<Rightarrow> string \<Rightarrow> string \<Rightarrow> string \<Rightarrow> AttendanceRecord \<Rightarrow> pairState \<Rightarrow> pairState" where
  "pairStep user userId date today record st =
     (let matchingCheckOut = find (isMatch record) (dayRecords st);
          entry = checkInEntry user userId date record matchingCheckOut
      in \<lparr>dayRecords = removeMatched matchingCheckOut (dayRecords st),
          checkInsAndOuts = checkInsAndOuts st @ [entry],
          userTotalMinutesAllTime = addMinutes (p_duration entry) (userTotalMinutesAllTime st),
          userTotalMinutesToday =
            (if date = today then addMinutes (p_duration entry) (userTotalMinutesToday st)
             else userTotalMinutesToday st)\<rparr>)"

function pairLoop ::
  "User \<Rightarrow> string \<Rightarrow> string \<Rightarrow> string \<Rightarrow> nat \<Rightarrow> pairState \<Rightarrow> pairState" where
  "pairLoop user userId date today i st =
     (if i < length (dayRecords st) then
        (let record = dayRecords st ! i
         in if r_type record = CheckIn
            then pairLoop user userId date today (Suc i) (pairStep user userId date today record st)
            else pairLoop user userId date today (Suc i) st)
      else st)"
  by pat_completeness auto

termination pairLoop
proof (relation "measure (\<lambda>(user, userId, date, today, i, st). length (dayRecords st) - i)")
  show "wf (measure (\<lambda>(user, userId, date, today, i, st). length (dayRecords st) - i))"
    by simp
next
  fix user :: User and userId date today :: string and i :: nat and st :: pairState
    and x :: AttendanceRecord
  assume a: "i < length (dayRecords st)"
  have "length (dayRecords (pairStep user userId date today x st)) \<le> length (dayRecords st)"
    by (auto simp add: pairStep_def Let_def removeMatched_def splice1_def split: option.splits)
  with a show "((user, userId, date, today, Suc i, pairStep user userId date today x st),
                (user, userId, date, today, i, st))
               \<in> measure (\<lambda>(user, userId, date, today, i, st). length (dayRecords st) - i)"
    by simp
next
  fix user :: User and userId date today :: string and i :: nat and st :: pairState
  assume "i < length (dayRecords st)"
  then show "((user, userId, date, today, Suc i, st), (user, userId, date, today, i, st))
               \<in> measure (\<lambda>(user, userId, date, today, i, st). length (dayRecords st) - i)"
    by simp
qed

text \<open>The second loop (lines 241 to 253): every check-out left in \<open>dayRecords\<close> becomes an
  entry without a check-in.\<close>

fun orphanEntries ::
  "User \<Rightarrow> string \<Rightarrow> string \<Rightarrow> AttendanceRecord list \<Rightarrow> ProcessedAttendanceRecord list" where
  "orphanEntries user userId date [] = []"
| "orphanEntries user userId date (record # rest) =
     (if r_type record = CheckOut
      then checkOutEntry user userId date record # orphanEntries user userId date rest
      else orphanEntries user userId date rest)"

text \<open>One date of one user (the body of the inner \<^verbatim>\<open>forEach\<close>, lines 186 to 257). The
  accumulator holds \<open>processed\<close> and the two totals of the user.\<close>

definition processDay ::
  "User \<Rightarrow> string \<Rightarrow> string \<Rightarrow> ProcessedAttendanceRecord list \<times> int \<times> int
     \<Rightarrow> string \<times> AttendanceRecord list \<Rightarrow> ProcessedAttendanceRecord list \<times> int \<times> int" where
  "processDay user userId today acc entry =
     (case acc of (processed, allTime, todayMinutes) \<Rightarrow>
      (case entry of (date, bucket) \<Rightarrow>
        (let st = pairLoop user userId date today 0
                    \<lparr>dayRecords = jsSort cmpTimestamp bucket, checkInsAndOuts = [],
                     userTotalMinutesAllTime = allTime, userTotalMinutesToday = todayMinutes\<rparr>
         in (processed @ checkInsAndOuts st @ orphanEntries user userId date (dayRecords st),
             userTotalMinutesAllTime st, userTotalMinutesToday st))))"

subsection \<open>Aggregation (lines 172 to 273)\<close>

record 'n procState =
  processed :: "ProcessedAttendanceRecord list"
  stats :: "(string \<times> 'n UserStats) list"
  sumHoursToday :: 'n
  usersWithHoursToday :: nat

definition processUser ::
  "'n platform \<Rightarrow> User list \<Rightarrow> string \<Rightarrow> 'n procState
     \<Rightarrow> string \<times> (string \<times> AttendanceRecord list) list \<Rightarrow> 'n procState" where
  "processUser P users today acc entry =
     (case entry of (userId, byDate) \<Rightarrow>
      (case find (\<lambda>u. u_id u = userId) users of
        None \<Rightarrow> acc
      | Some user \<Rightarrow>
          (case foldl (processDay user userId today) (processed acc, 0, 0) byDate of
             (processed', allTime, todayMinutes) \<Rightarrow>
               \<lparr>processed = processed',
                stats = AList.update userId
                  \<lparr>s_name = u_name user, s_email = u_email user,
                   totalMinutesToday = todayMinutes,
                   totalHoursToday = hoursOfMinutes P todayMinutes,
                   totalMinutesAllTime = allTime,
                   totalHoursAllTime = hoursOfMinutes P allTime\<rparr> (stats acc),
                sumHoursToday =
                  (if 0 < todayMinutes
                   then numAdd P (sumHoursToday acc)
                          (numDiv P (numOfInt P todayMinutes) (numOfInt P 60))
                   else sumHoursToday acc),
                usersWithHoursToday =
                  (if 0 < todayMinutes then Suc (usersWithHoursToday acc)
                   else usersWithHoursToday acc)\<rparr>)))"

subsection \<open>The final sort and the dashboard (lines 275 to 296)\<close>

text \<open>\<^verbatim>\<open>a.checkIn ? time(a.checkIn) : time(a.checkOut!)\<close>. An entry without check-in and
  without check-out would raise a TypeError here; the loops never build one
  (lemma \<open>processAttendance_has_endpoint\<close> below), and the model gives it \<^verbatim>\<open>NaN\<close>.\<close>

definition entryTime :: "ProcessedAttendanceRecord \<Rightarrow> int option" where
  "entryTime a = (case p_checkIn a of Some r \<Rightarrow> r_timestamp r
                  | None \<Rightarrow> (case p_checkOut a of Some r \<Rightarrow> r_timestamp r | None \<Rightarrow> None))"

definition cmpProcessed ::
  "'n platform \<Rightarrow> ProcessedAttendanceRecord \<Rightarrow> ProcessedAttendanceRecord \<Rightarrow> int" where
  "cmpProcessed P a b =
     (let dateA = parseDate P (p_date a); dateB = parseDate P (p_date b)
      in if jsNotEqual dateA dateB then sortCompare (jsSub dateB dateA)
         else sortCompare (jsSub (entryTime b) (entryTime a)))"

definition processAttendance ::
  "'n platform \<Rightarrow> int \<Rightarrow> AttendanceRecord list \<Rightarrow> User list \<Rightarrow> 'n DashboardState" where
  "processAttendance P now attendanceRecords users =
     (let recordsByUserAndDate = groupRecords P attendanceRecords;
          today = toLocaleDateString P now;
          acc = foldl (processUser P users today)
                  \<lparr>processed = [], stats = [], sumHoursToday = numOfInt P 0,
                   usersWithHoursToday = 0\<rparr> recordsByUserAndDate;
          sorted = jsSort (cmpProcessed P) (processed acc);
          todayRecords = filter (\<lambda>r. p_date r = today) sorted
      in \<lparr>processedAttendance = sorted,
          userStats = stats acc,
          dashboardStats =
            \<lparr>totalUsers = length users,
             checkedInUsers = length (filter u_checkedIn users),
             todayAttendance =
               (if todayRecords \<noteq> [] then length (remdups (map p_userId todayRecords)) else 0),
             avgHoursToday =
               (if 0 < usersWithHoursToday acc
                then toFixed1 P (numDiv P (sumHoursToday acc)
                                   (numOfInt P (int (usersWithHoursToday acc))))
                else numOfInt P 0)\<rparr>\<rparr>)"

text \<open>The effect itself: the guard of line 152, and nothing at all when it fails. The
  three \<^verbatim>\<open>useState\<close> cells start as \<open>initialState\<close> (lines 77 to 84).\<close>

definition attendanceEffect ::
  "'n platform \<Rightarrow> int \<Rightarrow> AttendanceRecord list \<Rightarrow> User list \<Rightarrow> 'n DashboardState
     \<Rightarrow> 'n DashboardState" where
  "attendanceEffect P now attendanceRecords users st =
     (if 0 < length attendanceRecords \<and> 0 < length users
      then processAttendance P now attendanceRecords users else st)"

definition initialState :: "'n platform \<Rightarrow> 'n DashboardState" where
  "initialState P =
     \<lparr>processedAttendance = [], userStats = [],
      dashboardStats = \<lparr>totalUsers = 0, checkedInUsers = 0, todayAttendance = 0,
                        avgHoursToday = numOfInt P 0\<rparr>\<rparr>"

declare pairLoop.simps [simp del]

subsection \<open>A concrete platform\<close>

text \<open>
  For the evaluation of examples: a platform whose local date is the number of the UTC day,
  written in decimal, whose date parser reads such a string back as the first millisecond of
  that day, and whose fractional numbers are the rationals, with \<^verbatim>\<open>toFixed(1)\<close>
  rounding to the nearest tenth. On the examples below every fractional value is an integer
  or a half, which a double holds exactly.
\<close>

definition digitOf :: "nat \<Rightarrow> char" where
  "digitOf d = ''0123456789'' ! d"

fun showNat :: "nat \<Rightarrow> string" where
  "showNat n = (if n < 10 then [digitOf n] else showNat (n div 10) @ [digitOf (n mod 10)])"

declare showNat.simps [simp del]

definition showInt :: "int \<Rightarrow> string" where
  "showInt i = (if i < 0 then CHR ''-'' # showNat (nat (- i)) else showNat (nat i))"

fun readNat :: "nat \<Rightarrow> string \<Rightarrow> nat option" where
  "readNat acc [] = Some acc"
| "readNat acc (c # cs) =
     (case indexOf ''0123456789'' c of None \<Rightarrow> None | Some d \<Rightarrow> readNat (10 * acc + d) cs)"

definition readInt :: "string \<Rightarrow> int option" where
  "readInt s = (case s of [] \<Rightarrow> None
                | c # cs \<Rightarrow> if c = CHR ''-'' then (if cs = [] then None
                                                    else map_option (\<lambda>n. - int n) (readNat 0 cs))
                           else map_option int (readNat 0 s))"

definition msPerDay :: int where
  "msPerDay = 86400000"

definition utcPlatform :: "rat platform" where
  "utcPlatform =
     \<lparr>toLocaleDateString = (\<lambda>ms. showInt (ms div msPerDay)),
      parseDate = (\<lambda>s. map_option (\<lambda>d. d * msPerDay) (readInt s)),
      numOfInt = rat_of_int,
      numAdd = (+),
      numDiv = (/),
      toFixed1 = (\<lambda>x. rat_of_int \<lfloor>x * 10 + 1 / 2\<rfloor> / 10)\<rparr>"

subsection \<open>Example inputs\<close>

definition hourMs :: int where
  "hourMs = 3600000"

definition minuteMs :: int where
  "minuteMs = 60000"

definition punch :: "string \<Rightarrow> string \<Rightarrow> recordType \<Rightarrow> int option \<Rightarrow> AttendanceRecord" where
  "punch i userId ty t = \<lparr>r_id = i, r_userId = userId, r_type = ty, r_timestamp = t\<rparr>"

definition member :: "string \<Rightarrow> User" where
  "member userId = \<lparr>u_id = userId, u_name = Some userId, u_email = None, u_checkedIn = False\<rparr>"

text \<open>A user who checks in at 9:00 and at 9:30 and out at 17:00 on day 0, and out at
  8:00 on day 1; a user who checks in at 23:50 on day 0 and out at 0:10 on day 1; a user
  who checks out twenty seconds after checking in.\<close>

definition doubleCheckIn :: "AttendanceRecord list" where
  "doubleCheckIn =
     [punch ''a'' ''u1'' CheckIn (Some (9 * hourMs)),
      punch ''b'' ''u1'' CheckIn (Some (9 * hourMs + 30 * minuteMs)),
      punch ''c'' ''u1'' CheckOut (Some (17 * hourMs)),
      punch ''d'' ''u1'' CheckOut (Some (msPerDay + 8 * hourMs))]"

definition acrossMidnight :: "AttendanceRecord list" where
  "acrossMidnight =
     [punch ''a'' ''u1'' CheckIn (Some (23 * hourMs + 50 * minuteMs)),
      punch ''b'' ''u1'' CheckOut (Some (msPerDay + 10 * minuteMs))]"

definition shortVisit :: "AttendanceRecord list" where
  "shortVisit =
     [punch ''a'' ''u1'' CheckIn (Some (9 * hourMs)),
      punch ''b'' ''u1'' CheckOut (Some (9 * hourMs + 20000))]"

text \<open>A day in timestamp order with two check-ins before two check-outs of one and the
  same time, and a third check-in after them.\<close>

definition tiedCheckOuts :: "AttendanceRecord list" where
  "tiedCheckOuts =
     [punch ''a'' ''u1'' CheckIn (Some (9 * hourMs)),
      punch ''b'' ''u1'' CheckIn (Some (9 * hourMs + 30 * minuteMs)),
      punch ''c'' ''u1'' CheckOut (Some (17 * hourMs)),
      punch ''d'' ''u1'' CheckOut (Some (17 * hourMs)),
      punch ''e'' ''u1'' CheckIn (Some (18 * hourMs))]"



subsection \<open>Notions of the specification\<close>

text \<open>A day list is in timestamp order when no record is later than one that follows
  it.\<close>

definition ordered :: "AttendanceRecord list \<Rightarrow> bool" where
  "ordered recs = sorted_wrt (\<lambda>a b. \<not> jsGreater (r_timestamp a) (r_timestamp b)) recs"

text \<open>
  The pairing policy in the words of the specification. The candidates of a check-in are
  the check-outs, among the events not yet consumed, whose timestamp is strictly greater;
  the earliest candidate is chosen, the first in the list among candidates of equal
  timestamp; a chosen check-out is removed from the remaining events; a check-in without
  candidate is paired with nothing.
\<close>

definition candidates :: "AttendanceRecord \<Rightarrow> AttendanceRecord list \<Rightarrow> AttendanceRecord list" where
  "candidates checkIn remaining =
     filter (\<lambda>r. r_type r = CheckOut \<and> jsGreater (r_timestamp r) (r_timestamp checkIn)) remaining"

fun earliest :: "AttendanceRecord list \<Rightarrow> AttendanceRecord option" where
  "earliest [] = None"
| "earliest (x # xs) =
     (case earliest xs of None \<Rightarrow> Some x
      | Some y \<Rightarrow> if jsGreater (r_timestamp x) (r_timestamp y) then Some y else Some x)"

fun greedyPairs ::
  "AttendanceRecord list \<Rightarrow> AttendanceRecord list
     \<Rightarrow> (AttendanceRecord \<times> AttendanceRecord option) list" where
  "greedyPairs [] remaining = []"
| "greedyPairs (e # es) remaining =
     (if r_type e = CheckIn
      then (case earliest (candidates e remaining) of
              None \<Rightarrow> (e, None) # greedyPairs es remaining
            | Some out \<Rightarrow> (e, Some out) # greedyPairs es (remove1 out remaining))
      else greedyPairs es remaining)"

definition greedySessions ::
  "AttendanceRecord list \<Rightarrow> (AttendanceRecord \<times> AttendanceRecord option) list" where
  "greedySessions recs = greedyPairs recs recs"

text \<open>The minutes an entry contributes to a total, and the rounding of a number of
  minutes to the nearest integer.\<close>

definition minutesOf :: "ProcessedAttendanceRecord \<Rightarrow> int" where
  "minutesOf e = (case p_duration e of None \<Rightarrow> 0 | Some d \<Rightarrow> d)"

definition roundNearest :: "rat \<Rightarrow> int" where
  "roundNearest x = \<lfloor>x + 1 / 2\<rfloor>"

text \<open>The user of a record is in the roster; the platform renders no valid time value as
  \<^verbatim>\<open>Invalid Date\<close>.\<close>

definition knownUser :: "User list \<Rightarrow> string \<Rightarrow> bool" where
  "knownUser users userId = (userId \<in> u_id ` set users)"


text \<open>The users with minutes today, and the mean of a list of numbers to one decimal,
  zero for the empty list.\<close>

definition activeMinutes :: "(string \<times> 'n UserStats) list \<Rightarrow> int list" where
  "activeMinutes sts = filter (\<lambda>m. 0 < m) (map (\<lambda>e. totalMinutesToday (snd e)) sts)"




subsection \<open>Auxiliary notions of the proofs\<close>

text \<open>One round of the first loop, as a function of the record under the index.\<close>

definition stepFold ::
  "User \<Rightarrow> string \<Rightarrow> string \<Rightarrow> string \<Rightarrow> pairState \<Rightarrow> AttendanceRecord \<Rightarrow> pairState" where
  "stepFold user userId date today st record =
     (if r_type record = CheckIn then pairStep user userId date today record st else st)"

text \<open>The entries that the two loops push for one date, for one user and for all users.\<close>

definition dayEntries ::
  "User \<Rightarrow> string \<Rightarrow> string \<Rightarrow> AttendanceRecord list \<Rightarrow> ProcessedAttendanceRecord list" where
  "dayEntries user userId date bucket =
     (let st = pairLoop user userId date date 0
                 \<lparr>dayRecords = jsSort cmpTimestamp bucket, checkInsAndOuts = [],
                  userTotalMinutesAllTime = 0, userTotalMinutesToday = 0\<rparr>
      in checkInsAndOuts st @ orphanEntries user userId date (dayRecords st))"

definition userEntries ::
  "User \<Rightarrow> string \<Rightarrow> (string \<times> AttendanceRecord list) list \<Rightarrow> ProcessedAttendanceRecord list" where
  "userEntries user userId byDate =
     concat (map (\<lambda>entry. dayEntries user userId (fst entry) (snd entry)) byDate)"

definition keyEntries ::
  "User list \<Rightarrow> string \<times> (string \<times> AttendanceRecord list) list
     \<Rightarrow> ProcessedAttendanceRecord list" where
  "keyEntries users entry =
     (case find (\<lambda>u. u_id u = fst entry) users of None \<Rightarrow> []
      | Some user \<Rightarrow> userEntries user (fst entry) (snd entry))"

definition allEntries :: "User list \<Rightarrow> buckets \<Rightarrow> ProcessedAttendanceRecord list" where
  "allEntries users g = concat (map (keyEntries users) g)"

text \<open>The statistics of one user from the entries of that user, and the statistics of
  all users in the order of the keys.\<close>

definition statsOfUser ::
  "'n platform \<Rightarrow> User \<Rightarrow> string \<Rightarrow> ProcessedAttendanceRecord list \<Rightarrow> 'n UserStats" where
  "statsOfUser P user today es =
     \<lparr>s_name = u_name user, s_email = u_email user,
      totalMinutesToday = sum_list (map minutesOf (filter (\<lambda>e. p_date e = today) es)),
      totalHoursToday =
        hoursOfMinutes P (sum_list (map minutesOf (filter (\<lambda>e. p_date e = today) es))),
      totalMinutesAllTime = sum_list (map minutesOf es),
      totalHoursAllTime = hoursOfMinutes P (sum_list (map minutesOf es))\<rparr>"

definition keyStats ::
  "'n platform \<Rightarrow> User list \<Rightarrow> string \<Rightarrow> string \<times> (string \<times> AttendanceRecord list) list
     \<Rightarrow> (string \<times> 'n UserStats) list" where
  "keyStats P users today entry =
     (case find (\<lambda>u. u_id u = fst entry) users of None \<Rightarrow> []
      | Some user \<Rightarrow>
          [(fst entry, statsOfUser P user today (userEntries user (fst entry) (snd entry)))])"

definition statsList ::
  "'n platform \<Rightarrow> User list \<Rightarrow> string \<Rightarrow> buckets \<Rightarrow> (string \<times> 'n UserStats) list" where
  "statsList P users today g = concat (map (keyStats P users today) g)"

text \<open>What every entry that the loops build looks like: its user and date are those of
  the bucket, its ends are records of the bucket of the right type, it has at least one end,
  and it has a duration exactly when it has both ends, which then are in strict order.\<close>

definition wellFormedEntry ::
  "string \<Rightarrow> string \<Rightarrow> AttendanceRecord set \<Rightarrow> ProcessedAttendanceRecord \<Rightarrow> bool" where
  "wellFormedEntry userId date S e =
     (p_userId e = userId \<and> p_date e = date \<and>
      (case p_checkIn e of
         None \<Rightarrow> (case p_checkOut e of None \<Rightarrow> False
                  | Some out \<Rightarrow> out \<in> S \<and> r_type out = CheckOut \<and> p_duration e = None)
       | Some c \<Rightarrow> c \<in> S \<and> r_type c = CheckIn \<and>
           (case p_checkOut e of None \<Rightarrow> p_duration e = None
            | Some out \<Rightarrow> out \<in> S \<and> r_type out = CheckOut \<and>
                (\<exists>ti to. r_timestamp c = Some ti \<and> r_timestamp out = Some to \<and> ti < to \<and>
                   p_duration e = Some (roundMinutes (to - ti))))))"



text \<open>The invariant of the grouping: keys occur once, and a record sits in the bucket of
  its user and of its date.\<close>

definition byDateInv :: "'n platform \<Rightarrow> string \<Rightarrow> (string \<times> AttendanceRecord list) list \<Rightarrow> bool" where
  "byDateInv P userId byDate =
     (distinct (map fst byDate) \<and>
      (\<forall>entry\<in>set byDate. \<forall>r\<in>set (snd entry).
         r_userId r = userId \<and> dateOf P (r_timestamp r) = fst entry))"

definition bucketsInv :: "'n platform \<Rightarrow> buckets \<Rightarrow> bool" where
  "bucketsInv P g =
     (distinct (map fst g) \<and> (\<forall>entry\<in>set g. byDateInv P (fst entry) (snd entry)))"

definition allRecords :: "buckets \<Rightarrow> AttendanceRecord list" where
  "allRecords g = concat (map (\<lambda>entry. concat (map snd (snd entry))) g)"

section \<open>Properties\<close>

subsection \<open>Arrays\<close>

lemma indexOf_None: "indexOf xs x = None \<longleftrightarrow> x \<notin> set xs"
  by (induction xs) auto

lemma splice1_indexOf: "indexOf xs x = Some i \<Longrightarrow> splice1 i xs = remove1 x xs"
  by (induction xs arbitrary: i) (auto simp: splice1_def)

lemma removeMatched_remove1:
  "removeMatched m recs = (case m of None \<Rightarrow> recs | Some out \<Rightarrow> remove1 out recs)"
  by (auto simp: removeMatched_def splice1_indexOf indexOf_None remove1_idem split: option.splits)

lemma dayRecords_pairStep:
  "dayRecords (pairStep u uid d t r st) =
     (case find (isMatch r) (dayRecords st) of None \<Rightarrow> dayRecords st
      | Some out \<Rightarrow> remove1 out (dayRecords st))"
  by (simp add: pairStep_def Let_def removeMatched_remove1)

lemma checkInsAndOuts_pairStep:
  "checkInsAndOuts (pairStep u uid d t r st) =
     checkInsAndOuts st @ [checkInEntry u uid d r (find (isMatch r) (dayRecords st))]"
  by (simp add: pairStep_def Let_def)

lemma find_append_none: "\<forall>x\<in>set xs. \<not> P x \<Longrightarrow> find P (xs @ ys) = find P ys"
  by (induction xs) auto

lemma remove1_append_notin: "x \<notin> set xs \<Longrightarrow> remove1 x (xs @ ys) = xs @ remove1 x ys"
  by (induction xs) auto

lemma foldl_stepFold_remove1:
  "r_type x \<noteq> CheckIn \<Longrightarrow>
   foldl (stepFold u uid d t) st (remove1 x es) = foldl (stepFold u uid d t) st es"
  by (induction es arbitrary: st) (auto simp: stepFold_def)

lemma ordered_remove1: "ordered xs \<Longrightarrow> ordered (remove1 x xs)"
  unfolding ordered_def by (induction xs) (auto dest: notin_set_remove1)

lemma pairLoop_fold:
  "ordered (pre @ suf) \<Longrightarrow> dayRecords st = pre @ suf \<Longrightarrow>
   pairLoop u uid d t (length pre) st = foldl (stepFold u uid d t) st suf"
proof (induction "length suf" arbitrary: pre suf st rule: less_induct)
  case less
  show ?case
  proof (cases suf)
    case Nil
    with less.prems show ?thesis by (simp add: pairLoop.simps)
  next
    case (Cons r es)
    have idx: "length pre < length (dayRecords st)" "dayRecords st ! length pre = r"
      using less.prems Cons by simp_all
    show ?thesis
    proof (cases "r_type r = CheckIn")
      case False
      have "pairLoop u uid d t (length (pre @ [r])) st = foldl (stepFold u uid d t) st es"
        using less.prems Cons by (intro less.hyps) simp_all
      with False idx Cons show ?thesis
        by (subst pairLoop.simps) (simp add: stepFold_def)
    next
      case True
      let ?st' = "pairStep u uid d t r st"
      have nopre: "\<forall>x\<in>set pre. \<not> isMatch r x"
        using less.prems(1) Cons by (auto simp: ordered_def sorted_wrt_append isMatch_def)
      have nor: "\<not> isMatch r r" using True by (simp add: isMatch_def)
      have fnd: "find (isMatch r) (dayRecords st) = find (isMatch r) es"
        using less.prems(2) Cons nopre nor by (simp add: find_append_none)
      have "\<exists>es'. dayRecords ?st' = (pre @ [r]) @ es' \<and> length es' \<le> length es
              \<and> ordered ((pre @ [r]) @ es')
              \<and> foldl (stepFold u uid d t) ?st' es' = foldl (stepFold u uid d t) ?st' es"
      proof (cases "find (isMatch r) es")
        case None
        then show ?thesis using fnd less.prems Cons
          by (intro exI[of _ es]) (simp add: dayRecords_pairStep)
      next
        case (Some out)
        then have m: "isMatch r out" "out \<in> set es"
          by (auto simp: find_Some_iff)
        then have "out \<notin> set pre" "out \<noteq> r" using nopre nor by auto
        then have "remove1 out (pre @ r # es) = (pre @ [r]) @ remove1 out es"
          by (simp add: remove1_append_notin)
        moreover have "r_type out \<noteq> CheckIn" using m by (simp add: isMatch_def)
        moreover have "ordered (remove1 out (pre @ r # es))"
          using less.prems(1) Cons by (simp add: ordered_remove1)
        ultimately show ?thesis using fnd Some less.prems Cons
          by (intro exI[of _ "remove1 out es"])
             (simp add: dayRecords_pairStep foldl_stepFold_remove1 length_remove1)
      qed
      then obtain es' where es': "dayRecords ?st' = (pre @ [r]) @ es'" "length es' \<le> length es"
          "ordered ((pre @ [r]) @ es')"
          "foldl (stepFold u uid d t) ?st' es' = foldl (stepFold u uid d t) ?st' es"
        by blast
      have "pairLoop u uid d t (length (pre @ [r])) ?st' = foldl (stepFold u uid d t) ?st' es'"
        using es' Cons by (intro less.hyps) simp_all
      with True idx Cons es'(4) show ?thesis
        by (subst pairLoop.simps) (simp add: stepFold_def)
    qed
  qed
qed


subsection \<open>Invariants of the loop on any list\<close>

lemma pairLoop_invariant:
  assumes "I st"
    and "\<And>r s. I s \<Longrightarrow> r \<in> set (dayRecords s) \<Longrightarrow> r_type r = CheckIn \<Longrightarrow> I (pairStep u uid d t r s)"
  shows "I (pairLoop u uid d t i st)"
  using assms(1)
proof (induction "length (dayRecords st) - i" arbitrary: i st rule: less_induct)
  case less
  show ?case
  proof (cases "i < length (dayRecords st)")
    case False
    then show ?thesis using less.prems by (subst pairLoop.simps) simp
  next
    case True
    show ?thesis
    proof (cases "r_type (dayRecords st ! i) = CheckIn")
      case c: True
      let ?st' = "pairStep u uid d t (dayRecords st ! i) st"
      have "I ?st'"
        using less.prems True c by (intro assms(2)) simp_all
      moreover have "length (dayRecords ?st') \<le> length (dayRecords st)"
        by (simp add: dayRecords_pairStep length_remove1 split: option.splits)
      ultimately have "I (pairLoop u uid d t (Suc i) ?st')"
        using True by (intro less.hyps) simp_all
      then show ?thesis using True c by (subst pairLoop.simps) simp
    next
      case c: False
      have "I (pairLoop u uid d t (Suc i) st)"
        using True less.prems by (intro less.hyps) simp_all
      then show ?thesis using True c by (subst pairLoop.simps) simp
    qed
  qed
qed

lemma minutesOf_checkInEntry:
  "addMinutes (p_duration (checkInEntry u uid d r m)) a = a + minutesOf (checkInEntry u uid d r m)"
  by (simp add: addMinutes_def minutesOf_def split: option.splits)

lemma totals_pairStep:
  "userTotalMinutesAllTime (pairStep u uid d t r st) =
     userTotalMinutesAllTime st + minutesOf (checkInEntry u uid d r (find (isMatch r) (dayRecords st)))"
  "userTotalMinutesToday (pairStep u uid d t r st) =
     userTotalMinutesToday st +
       (if d = t then minutesOf (checkInEntry u uid d r (find (isMatch r) (dayRecords st))) else 0)"
  by (simp_all add: pairStep_def Let_def minutesOf_checkInEntry)

lemma pairLoop_totals:
  "userTotalMinutesAllTime (pairLoop u uid d t i st) =
     userTotalMinutesAllTime st
       + sum_list (map minutesOf (checkInsAndOuts (pairLoop u uid d t i st)))
       - sum_list (map minutesOf (checkInsAndOuts st)) \<and>
   userTotalMinutesToday (pairLoop u uid d t i st) =
     userTotalMinutesToday st
       + (if d = t then sum_list (map minutesOf (checkInsAndOuts (pairLoop u uid d t i st)))
                        - sum_list (map minutesOf (checkInsAndOuts st)) else 0)"
proof -
  define a0 where "a0 = userTotalMinutesAllTime st - sum_list (map minutesOf (checkInsAndOuts st))"
  define t0 where "t0 = userTotalMinutesToday st
     - (if d = t then sum_list (map minutesOf (checkInsAndOuts st)) else 0)"
  let ?I = "\<lambda>s::pairState. userTotalMinutesAllTime s - sum_list (map minutesOf (checkInsAndOuts s)) = a0 \<and>
     userTotalMinutesToday s - (if d = t then sum_list (map minutesOf (checkInsAndOuts s)) else 0) = t0"
  have "?I (pairLoop u uid d t i st)"
  proof (rule pairLoop_invariant)
    show "?I st" by (simp add: a0_def t0_def)
  next
    fix r and s :: pairState assume "?I s"
    then show "?I (pairStep u uid d t r s)"
      by (auto simp add: totals_pairStep checkInsAndOuts_pairStep)
  qed
  then show ?thesis unfolding a0_def t0_def by (cases "d = t") auto
qed

lemma wellFormed_checkInEntry:
  assumes "r \<in> S" "r_type r = CheckIn" "set recs \<subseteq> S"
  shows "wellFormedEntry uid d S (checkInEntry u uid d r (find (isMatch r) recs))"
proof (cases "find (isMatch r) recs")
  case None
  then show ?thesis using assms by (simp add: wellFormedEntry_def checkInEntry_def entryDuration_def)
next
  case (Some out)
  then have "isMatch r out" "out \<in> set recs" by (auto simp: find_Some_iff)
  then show ?thesis using assms Some
    by (auto simp: wellFormedEntry_def checkInEntry_def entryDuration_def isMatch_def
        jsGreater_def jsSub_def split: option.splits)
qed

lemma pairLoop_wellFormed:
  assumes "set (dayRecords st) \<subseteq> S" "\<forall>e\<in>set (checkInsAndOuts st). wellFormedEntry uid d S e"
  shows "set (dayRecords (pairLoop u uid d t i st)) \<subseteq> S \<and>
         (\<forall>e\<in>set (checkInsAndOuts (pairLoop u uid d t i st)). wellFormedEntry uid d S e)"
proof (rule pairLoop_invariant)
  show "set (dayRecords st) \<subseteq> S \<and> (\<forall>e\<in>set (checkInsAndOuts st). wellFormedEntry uid d S e)"
    using assms by simp
next
  fix r and s :: pairState
  assume I: "set (dayRecords s) \<subseteq> S \<and> (\<forall>e\<in>set (checkInsAndOuts s). wellFormedEntry uid d S e)"
    and r: "r \<in> set (dayRecords s)" "r_type r = CheckIn"
  have "set (dayRecords (pairStep u uid d t r s)) \<subseteq> set (dayRecords s)"
    using set_remove1_subset by (fastforce simp: dayRecords_pairStep split: option.splits)
  moreover have "wellFormedEntry uid d S (checkInEntry u uid d r (find (isMatch r) (dayRecords s)))"
    using I r by (intro wellFormed_checkInEntry) auto
  ultimately show "set (dayRecords (pairStep u uid d t r s)) \<subseteq> S \<and>
      (\<forall>e\<in>set (checkInsAndOuts (pairStep u uid d t r s)). wellFormedEntry uid d S e)"
    using I by (auto simp: checkInsAndOuts_pairStep)
qed

lemma orphanEntries_wellFormed:
  "set recs \<subseteq> S \<Longrightarrow> \<forall>e\<in>set (orphanEntries u uid d recs). wellFormedEntry uid d S e"
  by (induction recs) (auto simp: wellFormedEntry_def checkOutEntry_def)


subsection \<open>The sort\<close>

lemma mset_insertBy: "mset (insertBy cmp x xs) = add_mset x (mset xs)"
  by (induction xs) auto

lemma mset_jsSort: "mset (jsSort cmp xs) = mset xs"
  unfolding jsSort_def by (induction xs) (auto simp: mset_insertBy)

lemma set_jsSort: "set (jsSort cmp xs) = set xs"
  by (metis mset_jsSort set_mset_mset)







subsection \<open>The loop does not depend on the totals\<close>

lemma pairLoop_entries_indep:
  "dayRecords st = dayRecords st' \<Longrightarrow> checkInsAndOuts st = checkInsAndOuts st' \<Longrightarrow>
   dayRecords (pairLoop u uid d t i st) = dayRecords (pairLoop u uid d t' i st') \<and>
   checkInsAndOuts (pairLoop u uid d t i st) = checkInsAndOuts (pairLoop u uid d t' i st')"
proof (induction "length (dayRecords st) - i" arbitrary: i st st' rule: less_induct)
  case less
  show ?case
  proof (cases "i < length (dayRecords st)")
    case False
    then show ?thesis using less.prems
      by (subst pairLoop.simps, subst (3) pairLoop.simps, subst (2) pairLoop.simps,
          subst (4) pairLoop.simps) simp
  next
    case True
    let ?r = "dayRecords st ! i"
    show ?thesis
    proof (cases "r_type ?r = CheckIn")
      case c: True
      let ?s = "pairStep u uid d t ?r st" and ?s' = "pairStep u uid d t' ?r st'"
      have eq: "dayRecords ?s = dayRecords ?s'" "checkInsAndOuts ?s = checkInsAndOuts ?s'"
        using less.prems by (simp_all add: dayRecords_pairStep checkInsAndOuts_pairStep split: option.splits)
      have "length (dayRecords ?s) \<le> length (dayRecords st)"
        by (simp add: dayRecords_pairStep length_remove1 split: option.splits)
      then have "dayRecords (pairLoop u uid d t (Suc i) ?s) = dayRecords (pairLoop u uid d t' (Suc i) ?s') \<and>
         checkInsAndOuts (pairLoop u uid d t (Suc i) ?s) = checkInsAndOuts (pairLoop u uid d t' (Suc i) ?s')"
        using True eq by (intro less.hyps) simp_all
      moreover have "pairLoop u uid d t i st = pairLoop u uid d t (Suc i) ?s"
        using True c by (subst pairLoop.simps) simp
      moreover have "pairLoop u uid d t' i st' = pairLoop u uid d t' (Suc i) ?s'"
        using True c less.prems by (subst pairLoop.simps) simp
      ultimately show ?thesis by simp
    next
      case c: False
      have "dayRecords (pairLoop u uid d t (Suc i) st) = dayRecords (pairLoop u uid d t' (Suc i) st') \<and>
         checkInsAndOuts (pairLoop u uid d t (Suc i) st) = checkInsAndOuts (pairLoop u uid d t' (Suc i) st')"
        using True less.prems by (intro less.hyps) simp_all
      moreover have "pairLoop u uid d t i st = pairLoop u uid d t (Suc i) st"
        using True c by (subst pairLoop.simps) simp
      moreover have "pairLoop u uid d t' i st' = pairLoop u uid d t' (Suc i) st'"
        using True c less.prems by (subst pairLoop.simps) simp
      ultimately show ?thesis by simp
    qed
  qed
qed

lemma processDay_dayEntries:
  "processDay u uid today (pr, a, t) (d, b) =
     (pr @ dayEntries u uid d b,
      a + sum_list (map minutesOf (dayEntries u uid d b)),
      t + (if d = today then sum_list (map minutesOf (dayEntries u uid d b)) else 0))"
proof -
  let ?st = "\<lparr>dayRecords = jsSort cmpTimestamp b, checkInsAndOuts = [],
               userTotalMinutesAllTime = a, userTotalMinutesToday = t\<rparr>"
  let ?init = "\<lparr>dayRecords = jsSort cmpTimestamp b, checkInsAndOuts = [],
               userTotalMinutesAllTime = 0, userTotalMinutesToday = 0\<rparr>"
  let ?r = "pairLoop u uid d today 0 ?st" and ?res = "pairLoop u uid d d 0 ?init"
  have eq: "dayRecords ?r = dayRecords ?res" "checkInsAndOuts ?r = checkInsAndOuts ?res"
    using pairLoop_entries_indep[where st="?st" and st'="?init" and u=u and uid=uid and d=d
        and t=today and i=0 and t'=d] by simp_all
  have orph: "sum_list (map minutesOf (orphanEntries u uid d recs)) = 0" for recs
    by (induction recs) (auto simp: minutesOf_def checkOutEntry_def)
  have tot: "userTotalMinutesAllTime ?r = a + sum_list (map minutesOf (checkInsAndOuts ?r))"
    "userTotalMinutesToday ?r = t + (if d = today then sum_list (map minutesOf (checkInsAndOuts ?r)) else 0)"
    using pairLoop_totals[where st="?st" and u=u and uid=uid and d=d and t=today and i=0]
    by simp_all
  have day: "dayEntries u uid d b = checkInsAndOuts ?res @ orphanEntries u uid d (dayRecords ?res)"
    by (simp add: dayEntries_def Let_def)
  have sumE: "sum_list (map minutesOf (checkInsAndOuts ?res @ orphanEntries u uid d (dayRecords ?res)))
      = sum_list (map minutesOf (checkInsAndOuts ?res))"
    by (simp add: orph)
  have "processDay u uid today (pr, a, t) (d, b) =
      (pr @ checkInsAndOuts ?r @ orphanEntries u uid d (dayRecords ?r),
       userTotalMinutesAllTime ?r, userTotalMinutesToday ?r)"
    by (simp add: processDay_def Let_def)
  then show ?thesis
    by (simp only: tot eq day sumE)
qed

lemma dayEntries_wellFormed:
  "\<forall>e\<in>set (dayEntries u uid d b). wellFormedEntry uid d (set b) e"
proof -
  let ?init = "\<lparr>dayRecords = jsSort cmpTimestamp b, checkInsAndOuts = [],
               userTotalMinutesAllTime = 0, userTotalMinutesToday = 0\<rparr>"
  have "set (dayRecords (pairLoop u uid d d 0 ?init)) \<subseteq> set b \<and>
        (\<forall>e\<in>set (checkInsAndOuts (pairLoop u uid d d 0 ?init)). wellFormedEntry uid d (set b) e)"
    by (rule pairLoop_wellFormed) (simp_all add: set_jsSort)
  then show ?thesis
    using orphanEntries_wellFormed[where recs="dayRecords (pairLoop u uid d d 0 ?init)"
        and S="set b" and u=u and uid=uid and d=d]
    by (auto simp: dayEntries_def Let_def)
qed


subsection \<open>One user, all users\<close>

lemma dayEntries_date: "e \<in> set (dayEntries u uid d b) \<Longrightarrow> p_date e = d \<and> p_userId e = uid"
  using dayEntries_wellFormed[of u uid d b] by (auto simp: wellFormedEntry_def)

lemma filter_dayEntries_today:
  "filter (\<lambda>e. p_date e = today) (dayEntries u uid d b) = (if d = today then dayEntries u uid d b else [])"
  by (auto simp: filter_empty_conv dest: dayEntries_date intro: filter_True)

lemma foldl_processDay:
  "foldl (processDay u uid today) (pr, a, t) byDate =
     (pr @ userEntries u uid byDate,
      a + sum_list (map minutesOf (userEntries u uid byDate)),
      t + sum_list (map minutesOf (filter (\<lambda>e. p_date e = today) (userEntries u uid byDate))))"
proof (induction byDate arbitrary: pr a t)
  case Nil
  then show ?case by (simp add: userEntries_def)
next
  case (Cons x byDate)
  obtain d b where x: "x = (d, b)" by (cases x)
  have ue: "userEntries u uid (x # byDate) = dayEntries u uid d b @ userEntries u uid byDate"
    by (simp add: userEntries_def x)
  show ?case
    unfolding foldl_Cons x processDay_dayEntries Cons.IH
    by (simp add: ue[unfolded x] filter_dayEntries_today)
qed

lemma processUser_known:
  assumes "find (\<lambda>u. u_id u = k) users = Some user"
  shows "processUser P users today acc (k, byDate) =
     \<lparr>processed = processed acc @ userEntries user k byDate,
      stats = AList.update k (statsOfUser P user today (userEntries user k byDate)) (stats acc),
      sumHoursToday =
        (if 0 < totalMinutesToday (statsOfUser P user today (userEntries user k byDate))
         then numAdd P (sumHoursToday acc)
           (numDiv P (numOfInt P (totalMinutesToday (statsOfUser P user today (userEntries user k byDate))))
              (numOfInt P 60))
         else sumHoursToday acc),
      usersWithHoursToday =
        (if 0 < totalMinutesToday (statsOfUser P user today (userEntries user k byDate))
         then Suc (usersWithHoursToday acc) else usersWithHoursToday acc)\<rparr>"
  using assms
  by (simp add: processUser_def foldl_processDay statsOfUser_def)

lemma processUser_unknown:
  "find (\<lambda>u. u_id u = k) users = None \<Longrightarrow> processUser P users today acc (k, byDate) = acc"
  by (simp add: processUser_def)

lemma processed_foldl_processUser:
  "processed (foldl (processUser P users today) acc g) = processed acc @ allEntries users g"
proof (induction g arbitrary: acc)
  case Nil
  then show ?case by (simp add: allEntries_def)
next
  case (Cons x g)
  obtain k byDate where x: "x = (k, byDate)" by (cases x)
  show ?case
    by (cases "find (\<lambda>u. u_id u = k) users")
       (simp_all add: Cons.IH x processUser_known processUser_unknown allEntries_def keyEntries_def)
qed

lemma update_fresh: "k \<notin> fst ` set al \<Longrightarrow> AList.update k v al = al @ [(k, v)]"
  by (induction al) auto

lemma keys_statsList: "fst ` set (statsList P users today g) \<subseteq> fst ` set g"
  by (force simp: statsList_def keyStats_def split: option.splits)

lemma stats_foldl_processUser:
  "distinct (map fst g) \<Longrightarrow>
   stats (foldl (processUser P users today)
            \<lparr>processed = [], stats = [], sumHoursToday = z, usersWithHoursToday = 0\<rparr> g)
     = statsList P users today g"
proof (induction g rule: rev_induct)
  case Nil
  then show ?case by (simp add: statsList_def)
next
  case (snoc x g)
  obtain k byDate where x: "x = (k, byDate)" by (cases x)
  have fresh: "k \<notin> fst ` set (statsList P users today g)"
    using snoc.prems keys_statsList[of P users today g] by (auto simp: x)
  have IH: "stats (foldl (processUser P users today)
            \<lparr>processed = [], stats = [], sumHoursToday = z, usersWithHoursToday = 0\<rparr> g)
     = statsList P users today g"
    using snoc by simp
  show ?case
  proof (cases "find (\<lambda>u. u_id u = k) users")
    case None
    then show ?thesis using IH
      by (simp add: x processUser_unknown statsList_def keyStats_def)
  next
    case (Some user)
    then show ?thesis using IH fresh
      by (simp add: x processUser_known update_fresh) (simp add: statsList_def keyStats_def)
  qed
qed


lemma activeMinutes_append: "activeMinutes (xs @ ys) = activeMinutes xs @ activeMinutes ys"
  by (simp add: activeMinutes_def)

lemma active_foldl_processUser:
  "usersWithHoursToday (foldl (processUser P users today)
      \<lparr>processed = [], stats = [], sumHoursToday = z, usersWithHoursToday = 0\<rparr> g)
     = length (activeMinutes (statsList P users today g)) \<and>
   sumHoursToday (foldl (processUser P users today)
      \<lparr>processed = [], stats = [], sumHoursToday = z, usersWithHoursToday = 0\<rparr> g)
     = foldl (numAdd P) z
         (map (\<lambda>m. numDiv P (numOfInt P m) (numOfInt P 60)) (activeMinutes (statsList P users today g)))"
proof (induction g rule: rev_induct)
  case Nil
  then show ?case by (simp add: statsList_def activeMinutes_def)
next
  case (snoc x g)
  obtain k byDate where x: "x = (k, byDate)" by (cases x)
  have sl: "statsList P users today (g @ [x]) = statsList P users today g @ keyStats P users today x"
    by (simp add: statsList_def)
  show ?case
  proof (cases "find (\<lambda>u. u_id u = k) users")
    case None
    then show ?thesis using snoc
      by (simp add: x processUser_unknown statsList_def keyStats_def)
  next
    case (Some user)
    then have ks: "keyStats P users today x = [(k, statsOfUser P user today (userEntries user k byDate))]"
      by (simp add: keyStats_def x)
    show ?thesis using snoc Some
      by (simp add: sl activeMinutes_append ks)
         (simp add: x processUser_known activeMinutes_def)
  qed
qed

subsection \<open>Grouping\<close>

lemma set_update_subset: "set (AList.update k v al) \<subseteq> insert (k, v) (set al)"
  by (induction al) auto

lemma update_sum:
  fixes f :: "'v \<Rightarrow> 'a multiset"
  assumes "f d = {#}"
  shows "sum_list (map (\<lambda>x. f (snd x)) (AList.update k v al)) + f (lookupOr d al k)
       = sum_list (map (\<lambda>x. f (snd x)) al) + f v"
  using assms by (induction al) (auto simp: lookupOr_def)

lemma mset_allRecords:
  "mset (allRecords g) = sum_list (map (\<lambda>x. mset (concat (map snd (snd x)))) g)"
  by (induction g) (auto simp: allRecords_def)

lemma mset_concat_snd:
  "mset (concat (map snd m)) = sum_list (map (\<lambda>x. mset (snd x)) m)"
  by (induction m) auto

lemma mset_allRecords_addRecord:
  "mset (allRecords (addRecord P g r)) = add_mset r (mset (allRecords g))"
proof -
  let ?u = "r_userId r" and ?d = "dateOf P (r_timestamp r)"
  let ?byDate = "lookupOr [] g ?u"
  let ?bucket = "lookupOr [] ?byDate ?d"
  let ?new = "AList.update ?d (?bucket @ [r]) ?byDate"
  have "mset (concat (map snd ?new)) + mset ?bucket = mset (concat (map snd ?byDate)) + mset (?bucket @ [r])"
    unfolding mset_concat_snd by (rule update_sum) simp
  then have inner: "mset (concat (map snd ?new)) = add_mset r (mset (concat (map snd ?byDate)))"
    by simp
  have "mset (allRecords (AList.update ?u ?new g)) + mset (concat (map snd ?byDate))
      = mset (allRecords g) + mset (concat (map snd ?new))"
    unfolding mset_allRecords
    by (rule update_sum[where f="\<lambda>m. mset (concat (map snd m))"]) simp
  then have "mset (allRecords (AList.update ?u ?new g)) = add_mset r (mset (allRecords g))"
    unfolding inner by simp
  then show ?thesis by (simp add: addRecord_def Let_def)
qed

lemma mset_allRecords_group: "mset (allRecords (groupRecords P recs)) = mset recs"
proof -
  have "mset (allRecords (foldl (addRecord P) g recs)) = mset (allRecords g) + mset recs" for g
    by (induction recs arbitrary: g) (simp_all add: mset_allRecords_addRecord)
  then show ?thesis by (simp add: groupRecords_def allRecords_def)
qed



lemma byDateInv_update:
  assumes "byDateInv P u m" "\<forall>x\<in>set b. r_userId x = u \<and> dateOf P (r_timestamp x) = d"
  shows "byDateInv P u (AList.update d b m)"
proof -
  have "distinct (map fst (AList.update d b m))"
    using assms(1) by (simp add: byDateInv_def AList.distinct_update)
  moreover have "r_userId x = u \<and> dateOf P (r_timestamp x) = fst entry"
    if "entry \<in> set (AList.update d b m)" "x \<in> set (snd entry)" for entry x
  proof -
    have "entry = (d, b) \<or> entry \<in> set m"
      using that(1) set_update_subset[of d b m] by auto
    then show ?thesis
    proof
      assume "entry = (d, b)"
      then show ?thesis using assms(2) that(2) by simp
    next
      assume "entry \<in> set m"
      then show ?thesis using assms(1) that(2) unfolding byDateInv_def by blast
    qed
  qed
  ultimately show ?thesis unfolding byDateInv_def by blast
qed

lemma byDateInv_lookup: "bucketsInv P g \<Longrightarrow> byDateInv P u (lookupOr [] g u)"
proof (cases "map_of g u")
  case None
  then show ?thesis by (simp add: lookupOr_def byDateInv_def)
next
  case (Some m)
  assume "bucketsInv P g"
  moreover have "(u, m) \<in> set g" using Some by (rule map_of_SomeD)
  ultimately have "byDateInv P (fst (u, m)) (snd (u, m))" unfolding bucketsInv_def by blast
  then show ?thesis using Some by (simp add: lookupOr_def)
qed

lemma bucket_lookup:
  "byDateInv P u m \<Longrightarrow> \<forall>x\<in>set (lookupOr [] m d). r_userId x = u \<and> dateOf P (r_timestamp x) = d"
proof (cases "map_of m d")
  case None
  then show ?thesis by (simp add: lookupOr_def)
next
  case (Some b)
  assume "byDateInv P u m"
  moreover have "(d, b) \<in> set m" using Some by (rule map_of_SomeD)
  ultimately have "\<forall>x\<in>set (snd (d, b)). r_userId x = u \<and> dateOf P (r_timestamp x) = fst (d, b)"
    unfolding byDateInv_def by blast
  then show ?thesis using Some by (simp add: lookupOr_def)
qed

lemma bucketsInv_addRecord:
  assumes "bucketsInv P g"
  shows "bucketsInv P (addRecord P g r)"
proof -
  let ?u = "r_userId r" and ?d = "dateOf P (r_timestamp r)"
  let ?byDate = "lookupOr [] g ?u"
  let ?bucket = "lookupOr [] ?byDate ?d"
  let ?new = "AList.update ?d (?bucket @ [r]) ?byDate"
  have byDate: "byDateInv P ?u ?byDate" using assms by (rule byDateInv_lookup)
  then have b: "\<forall>x\<in>set ?bucket. r_userId x = ?u \<and> dateOf P (r_timestamp x) = ?d"
    by (rule bucket_lookup)
  have "r_userId x = ?u \<and> dateOf P (r_timestamp x) = ?d" if "x \<in> set (?bucket @ [r])" for x
  proof (cases "x = r")
    case True
    then show ?thesis by simp
  next
    case False
    then have "x \<in> set ?bucket" using that by simp
    with b show ?thesis by blast
  qed
  then have "\<forall>x\<in>set (?bucket @ [r]). r_userId x = ?u \<and> dateOf P (r_timestamp x) = ?d"
    by blast
  with byDate have new: "byDateInv P ?u ?new" by (rule byDateInv_update)
  have "byDateInv P (fst entry) (snd entry)" if "entry \<in> set (AList.update ?u ?new g)" for entry
  proof -
    have "entry = (?u, ?new) \<or> entry \<in> set g"
      using that set_update_subset[of ?u ?new g] by auto
    then show ?thesis
    proof
      assume "entry = (?u, ?new)"
      then show ?thesis using new by simp
    next
      assume "entry \<in> set g"
      then show ?thesis using assms unfolding bucketsInv_def by blast
    qed
  qed
  moreover have "distinct (map fst (AList.update ?u ?new g))"
    using assms by (simp add: bucketsInv_def AList.distinct_update)
  ultimately show ?thesis
    by (simp add: bucketsInv_def addRecord_def Let_def)
qed

lemma bucketsInv_group: "bucketsInv P (groupRecords P recs)"
proof -
  have "bucketsInv P g \<Longrightarrow> bucketsInv P (foldl (addRecord P) g recs)" for g
    by (induction recs arbitrary: g) (simp_all add: bucketsInv_addRecord)
  moreover have "bucketsInv P []" by (simp add: bucketsInv_def)
  ultimately show ?thesis unfolding groupRecords_def by blast
qed

subsection \<open>The whole computation\<close>

lemma processAttendance_eq:
  "processAttendance P now recs users =
     \<lparr>processedAttendance = jsSort (cmpProcessed P) (allEntries users (groupRecords P recs)),
      userStats = statsList P users (toLocaleDateString P now) (groupRecords P recs),
      dashboardStats =
        \<lparr>totalUsers = length users,
         checkedInUsers = length (filter u_checkedIn users),
         todayAttendance =
           (if filter (\<lambda>r. p_date r = toLocaleDateString P now)
                 (jsSort (cmpProcessed P) (allEntries users (groupRecords P recs))) \<noteq> []
            then length (remdups (map p_userId
                   (filter (\<lambda>r. p_date r = toLocaleDateString P now)
                      (jsSort (cmpProcessed P) (allEntries users (groupRecords P recs))))))
            else 0),
         avgHoursToday =
           (if activeMinutes (statsList P users (toLocaleDateString P now) (groupRecords P recs)) = []
            then numOfInt P 0
            else toFixed1 P
              (numDiv P
                (foldl (numAdd P) (numOfInt P 0)
                   (map (\<lambda>m. numDiv P (numOfInt P m) (numOfInt P 60))
                      (activeMinutes (statsList P users (toLocaleDateString P now) (groupRecords P recs)))))
                (numOfInt P (int (length
                   (activeMinutes (statsList P users (toLocaleDateString P now) (groupRecords P recs))))))))\<rparr>\<rparr>"
proof -
  let ?g = "groupRecords P recs" and ?today = "toLocaleDateString P now"
  let ?acc = "foldl (processUser P users ?today)
      \<lparr>processed = [], stats = [], sumHoursToday = numOfInt P 0, usersWithHoursToday = 0\<rparr> ?g"
  have d: "distinct (map fst ?g)" using bucketsInv_group[of P recs] by (simp add: bucketsInv_def)
  have 1: "processed ?acc = allEntries users ?g" by (simp add: processed_foldl_processUser)
  have 2: "stats ?acc = statsList P users ?today ?g" using d by (rule stats_foldl_processUser)
  have 3: "usersWithHoursToday ?acc = length (activeMinutes (statsList P users ?today ?g))"
    "sumHoursToday ?acc = foldl (numAdd P) (numOfInt P 0)
         (map (\<lambda>m. numDiv P (numOfInt P m) (numOfInt P 60)) (activeMinutes (statsList P users ?today ?g)))"
    using active_foldl_processUser[of P users ?today "numOfInt P 0" ?g] by simp_all
  show ?thesis
    unfolding processAttendance_def Let_def 1 2 3 by simp
qed

lemma attendanceEffect_guard:
  "recs \<noteq> [] \<Longrightarrow> users \<noteq> [] \<Longrightarrow>
   attendanceEffect P now recs users st = processAttendance P now recs users"
  by (simp add: attendanceEffect_def)

lemma processedAttendance_eq:
  "processedAttendance (processAttendance P now recs users)
     = jsSort (cmpProcessed P) (allEntries users (groupRecords P recs))"
  by (simp add: processAttendance_eq)

lemma userStats_eq:
  "userStats (processAttendance P now recs users)
     = statsList P users (toLocaleDateString P now) (groupRecords P recs)"
  by (simp add: processAttendance_eq)





lemma find_user_known: "(find (\<lambda>u. u_id u = k) users \<noteq> None) = knownUser users k"
  by (auto simp: knownUser_def find_None_iff)



subsection \<open>Entries of the whole computation\<close>

lemma userEntries_wellFormed:
  "e \<in> set (userEntries u uid byDate) \<Longrightarrow>
   \<exists>day\<in>set byDate. wellFormedEntry uid (fst day) (set (snd day)) e"
  using dayEntries_wellFormed by (fastforce simp: userEntries_def)

lemma allEntries_wellFormed:
  assumes "e \<in> set (allEntries users g)"
  shows "\<exists>entry\<in>set g. knownUser users (fst entry) \<and>
           (\<exists>day\<in>set (snd entry). wellFormedEntry (fst entry) (fst day) (set (snd day)) e)"
proof -
  from assms obtain entry where entry: "entry \<in> set g" "e \<in> set (keyEntries users entry)"
    by (auto simp: allEntries_def)
  then obtain user where user: "find (\<lambda>u. u_id u = fst entry) users = Some user"
    "e \<in> set (userEntries user (fst entry) (snd entry))"
    by (cases "find (\<lambda>u. u_id u = fst entry) users") (auto simp: keyEntries_def)
  then have "knownUser users (fst entry)"
    using find_user_known[of "fst entry" users] by simp
  with entry(1) userEntries_wellFormed[OF user(2)] show ?thesis by blast
qed

lemma set_processedAttendance:
  "set (processedAttendance (processAttendance P now recs users))
     = set (allEntries users (groupRecords P recs))"
  by (simp add: processedAttendance_eq set_jsSort)

lemma processed_wellFormed:
  assumes "e \<in> set (processedAttendance (processAttendance P now recs users))"
  shows "\<exists>S. (\<forall>r\<in>S. r \<in> set recs \<and> r_userId r = p_userId e \<and> dateOf P (r_timestamp r) = p_date e)
            \<and> knownUser users (p_userId e) \<and> wellFormedEntry (p_userId e) (p_date e) S e"
proof -
  let ?g = "groupRecords P recs"
  from assms have "e \<in> set (allEntries users ?g)" by (simp add: set_processedAttendance)
  then obtain entry day where ed: "entry \<in> set ?g" "knownUser users (fst entry)"
      "day \<in> set (snd entry)" "wellFormedEntry (fst entry) (fst day) (set (snd day)) e"
    using allEntries_wellFormed by blast
  have inv: "byDateInv P (fst entry) (snd entry)"
    using bucketsInv_group[of P recs] ed(1) unfolding bucketsInv_def by blast
  have ids: "p_userId e = fst entry" "p_date e = fst day"
    using ed(4) by (simp_all add: wellFormedEntry_def)
  have "set (snd day) \<subseteq> set (allRecords ?g)"
    using ed(1,3) by (auto simp: allRecords_def)
  also have "\<dots> = set recs"
    using mset_allRecords_group[of P recs] by (metis set_mset_mset)
  finally have "set (snd day) \<subseteq> set recs" .
  moreover have "\<forall>r\<in>set (snd day). r_userId r = fst entry \<and> dateOf P (r_timestamp r) = fst day"
    using inv ed(3) unfolding byDateInv_def by blast
  ultimately have "\<forall>r\<in>set (snd day). r \<in> set recs \<and> r_userId r = p_userId e \<and> dateOf P (r_timestamp r) = p_date e"
    unfolding ids by blast
  then show ?thesis using ed(2,4) unfolding ids by blast
qed

lemma processAttendance_has_endpoint:
  assumes "e \<in> set (processedAttendance (processAttendance P now recs users))"
  shows "p_checkIn e \<noteq> None \<or> p_checkOut e \<noteq> None"
proof -
  from assms have "\<exists>S. (\<forall>r\<in>S. r \<in> set recs \<and> r_userId r = p_userId e
        \<and> dateOf P (r_timestamp r) = p_date e)
      \<and> knownUser users (p_userId e) \<and> wellFormedEntry (p_userId e) (p_date e) S e"
    by (rule processed_wellFormed)
  then obtain S where "wellFormedEntry (p_userId e) (p_date e) S e" by blast
  then show ?thesis by (auto simp: wellFormedEntry_def split: option.splits)
qed

lemma roundMinutes_roundNearest:
  "roundMinutes ms = roundNearest (rat_of_int ms / 1000 / 60)"
proof -
  have "rat_of_int ms / 1000 / 60 + 1 / 2 = rat_of_int (ms + 30000) / rat_of_int 60000"
    by (simp add: field_simps)
  then show ?thesis
    unfolding roundMinutes_def roundNearest_def by (simp only: floor_divide_of_int_eq)
qed

lemma roundMinutes_nonneg: "0 \<le> ms \<Longrightarrow> 0 \<le> roundMinutes ms"
  by (simp add: roundMinutes_def pos_imp_zdiv_nonneg_iff)


subsection \<open>Totals of a user\<close>

lemma userEntries_userId: "e \<in> set (userEntries u uid byDate) \<Longrightarrow> p_userId e = uid"
  by (auto simp: userEntries_def dest: dayEntries_date)

lemma keyEntries_userId: "e \<in> set (keyEntries users entry) \<Longrightarrow> p_userId e = fst entry"
  by (cases "find (\<lambda>u. u_id u = fst entry) users") (auto simp: keyEntries_def dest: userEntries_userId)

lemma filter_allEntries_other:
  "k \<notin> fst ` set g \<Longrightarrow> filter (\<lambda>e. p_userId e = k) (allEntries users g) = []"
  by (auto simp: allEntries_def filter_empty_conv dest!: keyEntries_userId)

lemma filter_allEntries_key:
  assumes "distinct (map fst g)" "(k, byDate) \<in> set g"
  shows "filter (\<lambda>e. p_userId e = k) (allEntries users g) = keyEntries users (k, byDate)"
  using assms
proof (induction g)
  case Nil
  then show ?case by simp
next
  case (Cons x g)
  have ae: "allEntries users (x # g) = keyEntries users x @ allEntries users g"
    by (simp add: allEntries_def)
  show ?case
  proof (cases "x = (k, byDate)")
    case True
    then have "k \<notin> fst ` set g" using Cons.prems(1) by auto
    then have "filter (\<lambda>e. p_userId e = k) (allEntries users g) = []"
      by (rule filter_allEntries_other)
    moreover have "filter (\<lambda>e. p_userId e = k) (keyEntries users x) = keyEntries users x"
      using True by (auto intro!: filter_True dest: keyEntries_userId)
    ultimately show ?thesis unfolding ae using True by simp
  next
    case False
    then have in_g: "(k, byDate) \<in> set g" using Cons.prems(2) by simp
    then have "k \<in> fst ` set g" by (rule image_eqI[rotated]) simp
    then have "fst x \<noteq> k" using Cons.prems(1) by auto
    then have "filter (\<lambda>e. p_userId e = k) (keyEntries users x) = []"
      by (auto simp: filter_empty_conv dest: keyEntries_userId)
    moreover have "filter (\<lambda>e. p_userId e = k) (allEntries users g) = keyEntries users (k, byDate)"
      using Cons.prems(1) in_g by (intro Cons.IH) simp_all
    ultimately show ?thesis unfolding ae by simp
  qed
qed

lemma sum_filter_jsSort:
  fixes f :: "'a \<Rightarrow> int"
  shows "sum_list (map f (filter Q (jsSort cmp xs))) = sum_list (map f (filter Q xs))"
proof -
  have "mset (map f (filter Q (jsSort cmp xs))) = mset (map f (filter Q xs))"
    by (simp add: mset_jsSort)
  then have "sum_mset (mset (map f (filter Q (jsSort cmp xs)))) = sum_mset (mset (map f (filter Q xs)))"
    by (rule arg_cong)
  then show ?thesis by (simp only: sum_mset_sum_list)
qed

lemma statsList_member:
  assumes "(k, s) \<in> set (statsList P users today g)"
  shows "\<exists>byDate user. (k, byDate) \<in> set g \<and> find (\<lambda>u. u_id u = k) users = Some user \<and>
           s = statsOfUser P user today (userEntries user k byDate)"
proof -
  from assms obtain entry where entry: "entry \<in> set g" "(k, s) \<in> set (keyStats P users today entry)"
    by (auto simp: statsList_def)
  obtain k' byDate where e: "entry = (k', byDate)" by (cases entry)
  show ?thesis
  proof (cases "find (\<lambda>u. u_id u = k') users")
    case None
    then show ?thesis using entry(2) by (simp add: keyStats_def e)
  next
    case (Some user)
    then have "k = k'" "s = statsOfUser P user today (userEntries user k' byDate)"
      using entry(2) by (simp_all add: keyStats_def e)
    then show ?thesis using Some entry(1) e by blast
  qed
qed

lemma userStats_totals:
  assumes "(k, s) \<in> set (userStats (processAttendance P now recs users))"
  shows "totalMinutesAllTime s =
           sum_list (map minutesOf (filter (\<lambda>e. p_userId e = k)
              (processedAttendance (processAttendance P now recs users))))"
    and "totalMinutesToday s =
           sum_list (map minutesOf (filter (\<lambda>e. p_userId e = k \<and> p_date e = toLocaleDateString P now)
              (processedAttendance (processAttendance P now recs users))))"
proof -
  let ?g = "groupRecords P recs" and ?today = "toLocaleDateString P now"
  from assms obtain byDate user where m: "(k, byDate) \<in> set ?g"
      "find (\<lambda>u. u_id u = k) users = Some user"
      "s = statsOfUser P user ?today (userEntries user k byDate)"
    using statsList_member[of k s P users ?today ?g] by (auto simp: userStats_eq)
  have d: "distinct (map fst ?g)" using bucketsInv_group[of P recs] by (simp add: bucketsInv_def)
  have f: "filter (\<lambda>e. p_userId e = k) (allEntries users ?g) = userEntries user k byDate"
    using filter_allEntries_key[OF d m(1), of users] m(2) by (simp add: keyEntries_def)
  show "totalMinutesAllTime s =
           sum_list (map minutesOf (filter (\<lambda>e. p_userId e = k)
              (processedAttendance (processAttendance P now recs users))))"
    by (simp add: processedAttendance_eq sum_filter_jsSort f m(3) statsOfUser_def)
  have "filter (\<lambda>e. p_userId e = k \<and> p_date e = ?today) (allEntries users ?g)
      = filter (\<lambda>e. p_date e = ?today) (userEntries user k byDate)"
    using f by (metis filter_filter conj_commute)
  then show "totalMinutesToday s =
           sum_list (map minutesOf (filter (\<lambda>e. p_userId e = k \<and> p_date e = ?today)
              (processedAttendance (processAttendance P now recs users))))"
    by (simp add: processedAttendance_eq sum_filter_jsSort m(3) statsOfUser_def)
qed

subsection \<open>The greedy policy\<close>

lemma ordered_filter: "ordered xs \<Longrightarrow> ordered (filter Q xs)"
  unfolding ordered_def by (rule sorted_wrt_filter)

lemma earliest_ordered:
  "ordered xs \<Longrightarrow> earliest xs = (case xs of [] \<Rightarrow> None | x # _ \<Rightarrow> Some x)"
proof (induction xs)
  case Nil
  then show ?case by simp
next
  case (Cons x xs)
  then have IH: "earliest xs = (case xs of [] \<Rightarrow> None | y # _ \<Rightarrow> Some y)"
    by (simp add: ordered_def)
  show ?case
  proof (cases xs)
    case Nil
    then show ?thesis by simp
  next
    case (Cons y ys)
    then have "\<not> jsGreater (r_timestamp x) (r_timestamp y)"
      using Cons.prems by (simp add: ordered_def)
    then show ?thesis using IH Cons by simp
  qed
qed

lemma find_filter: "find Q xs = (case filter Q xs of [] \<Rightarrow> None | x # _ \<Rightarrow> Some x)"
  by (induction xs) auto

lemma earliest_candidates:
  "ordered recs \<Longrightarrow> earliest (candidates e recs) = find (isMatch e) recs"
proof -
  assume o: "ordered recs"
  have "isMatch e = (\<lambda>r. r_type r = CheckOut \<and> jsGreater (r_timestamp r) (r_timestamp e))"
    by (simp add: fun_eq_iff isMatch_def)
  then have c: "candidates e recs = filter (isMatch e) recs"
    by (simp add: candidates_def)
  show ?thesis
    unfolding c using o by (simp add: earliest_ordered ordered_filter find_filter)
qed

lemma stepFold_CheckIn:
  "r_type e = CheckIn \<Longrightarrow> stepFold u uid d t st e = pairStep u uid d t e st"
  by (simp add: stepFold_def)

lemma stepFold_other: "r_type e \<noteq> CheckIn \<Longrightarrow> stepFold u uid d t st e = st"
  by (simp add: stepFold_def)

lemma foldl_stepFold_greedy:
  "ordered (dayRecords st) \<Longrightarrow>
   checkInsAndOuts (foldl (stepFold u uid d t) st es) =
     checkInsAndOuts st @ map (\<lambda>p. checkInEntry u uid d (fst p) (snd p)) (greedyPairs es (dayRecords st))"
proof (induction es arbitrary: st)
  case Nil
  then show ?case by simp
next
  case (Cons e es)
  show ?case
  proof (cases "r_type e = CheckIn")
    case False
    then show ?thesis using Cons by (simp add: stepFold_other)
  next
    case True
    let ?st' = "pairStep u uid d t e st"
    have o': "ordered (dayRecords ?st')"
      using Cons.prems by (simp add: dayRecords_pairStep ordered_remove1 split: option.splits)
    have "checkInsAndOuts (foldl (stepFold u uid d t) ?st' es) =
      checkInsAndOuts ?st' @ map (\<lambda>p. checkInEntry u uid d (fst p) (snd p)) (greedyPairs es (dayRecords ?st'))"
      using o' by (rule Cons.IH)
    then show ?thesis
      using True Cons.prems
      by (simp add: stepFold_CheckIn earliest_candidates checkInsAndOuts_pairStep
          dayRecords_pairStep split: option.splits)
  qed
qed

subsection \<open>Conservation of the records\<close>





lemma p_checkIn_checkInEntry [simp]: "p_checkIn (checkInEntry u uid d r m) = Some r"
  and p_checkOut_checkInEntry [simp]: "p_checkOut (checkInEntry u uid d r m) = m"
  by (simp_all add: checkInEntry_def)

















subsection \<open>Records without a valid timestamp\<close>




section \<open>The claims\<close>

text \<open>
  Claim C1. On a day list in timestamp order, the first loop pairs the check-ins, in the
  order of the list, by the greedy policy of the specification: each check-in gets the
  earliest check-out not yet taken whose timestamp is strictly greater, the first in the
  list among check-outs of the same timestamp; a check-out that is taken is out of
  consideration for the check-ins that follow; and a check-in without such a check-out
  gets a session without check-out.
\<close>

theorem pairing_is_greedy:
  assumes "ordered recs"
  shows "checkInsAndOuts
           (pairLoop user userId date today 0
              \<lparr>dayRecords = recs, checkInsAndOuts = [],
               userTotalMinutesAllTime = allTime, userTotalMinutesToday = todayMinutes\<rparr>)
         = map (\<lambda>p. checkInEntry user userId date (fst p) (snd p)) (greedySessions recs)"
proof -
  let ?st = "\<lparr>dayRecords = recs, checkInsAndOuts = [],
               userTotalMinutesAllTime = allTime, userTotalMinutesToday = todayMinutes\<rparr>"
  have "pairLoop user userId date today (length ([] :: AttendanceRecord list)) ?st
      = foldl (stepFold user userId date today) ?st recs"
    using assms by (intro pairLoop_fold) simp_all
  then show ?thesis
    using assms foldl_stepFold_greedy[of ?st user userId date today recs]
    by (simp add: greedySessions_def)
qed


theorem pairing_is_greedy_witness:
  "ordered tiedCheckOuts
   \<and> map (\<lambda>p. (r_id (fst p), map_option r_id (snd p))) (greedySessions tiedCheckOuts)
       = [(''a'', Some ''c''), (''b'', Some ''d''), (''e'', None)]
   \<and> map (\<lambda>e. (map_option r_id (p_checkIn e), map_option r_id (p_checkOut e), p_duration e))
        (checkInsAndOuts
           (pairLoop (member ''u1'') ''u1'' ''0'' ''0'' 0
              \<lparr>dayRecords = tiedCheckOuts, checkInsAndOuts = [],
               userTotalMinutesAllTime = 0, userTotalMinutesToday = 0\<rparr>))
       = [(Some ''a'', Some ''c'', Some 480), (Some ''b'', Some ''d'', Some 450),
          (Some ''e'', None, None)]"
proof -
  have o: "ordered tiedCheckOuts" by code_simp
  have g: "map (\<lambda>p. (r_id (fst p), map_option r_id (snd p))) (greedySessions tiedCheckOuts)
       = [(''a'', Some ''c''), (''b'', Some ''d''), (''e'', None)]"
    by code_simp
  have "map (\<lambda>e. (map_option r_id (p_checkIn e), map_option r_id (p_checkOut e), p_duration e))
          (map (\<lambda>p. checkInEntry (member ''u1'') ''u1'' ''0'' (fst p) (snd p))
             (greedySessions tiedCheckOuts))
       = [(Some ''a'', Some ''c'', Some 480), (Some ''b'', Some ''d'', Some 450),
          (Some ''e'', None, None)]"
    by code_simp
  then have "map (\<lambda>e. (map_option r_id (p_checkIn e), map_option r_id (p_checkOut e), p_duration e))
        (checkInsAndOuts
           (pairLoop (member ''u1'') ''u1'' ''0'' ''0'' 0
              \<lparr>dayRecords = tiedCheckOuts, checkInsAndOuts = [],
               userTotalMinutesAllTime = 0, userTotalMinutesToday = 0\<rparr>))
       = [(Some ''a'', Some ''c'', Some 480), (Some ''b'', Some ''d'', Some 450),
          (Some ''e'', None, None)]"
    by (simp only: pairing_is_greedy[OF o])
  with o g show ?thesis by blast
qed

text \<open>
  Claim C2. When the effect runs, a session has a duration exactly when it has both a
  check-in and a check-out. In that case the check-out is strictly later than the check-in
  and the duration is the difference of the two timestamps, in seconds over sixty, rounded
  to the nearest integer; it is not negative. The minute totals of a user are the sums of
  the durations of that user's sessions (of those dated today, for the total of today), in
  which a session with one end only, open or orphan, counts as zero.
\<close>

theorem session_duration:
  assumes "attendanceRecords \<noteq> []" "users \<noteq> []"
  shows "(\<forall>e\<in>set (processedAttendance (attendanceEffect P now attendanceRecords users st)).
            (p_duration e \<noteq> None) = (p_checkIn e \<noteq> None \<and> p_checkOut e \<noteq> None) \<and>
            (p_duration e = None \<longrightarrow> minutesOf e = 0) \<and>
            (\<forall>c out. p_checkIn e = Some c \<and> p_checkOut e = Some out \<longrightarrow>
               (\<exists>ti to. r_timestamp c = Some ti \<and> r_timestamp out = Some to \<and> ti < to \<and>
                  p_duration e = Some (roundNearest (rat_of_int (to - ti) / 1000 / 60)) \<and>
                  0 \<le> roundNearest (rat_of_int (to - ti) / 1000 / 60))))
       \<and> (\<forall>entry\<in>set (userStats (attendanceEffect P now attendanceRecords users st)).
            totalMinutesAllTime (snd entry) =
              sum_list (map minutesOf (filter (\<lambda>e. p_userId e = fst entry)
                (processedAttendance (attendanceEffect P now attendanceRecords users st)))) \<and>
            totalMinutesToday (snd entry) =
              sum_list (map minutesOf
                (filter (\<lambda>e. p_userId e = fst entry \<and> p_date e = toLocaleDateString P now)
                  (processedAttendance (attendanceEffect P now attendanceRecords users st)))))"
proof -
  let ?out = "attendanceEffect P now attendanceRecords users st"
  have out: "?out = processAttendance P now attendanceRecords users"
    using assms by (rule attendanceEffect_guard)
  have sessions: "(p_duration e \<noteq> None) = (p_checkIn e \<noteq> None \<and> p_checkOut e \<noteq> None) \<and>
            (p_duration e = None \<longrightarrow> minutesOf e = 0) \<and>
            (\<forall>c out. p_checkIn e = Some c \<and> p_checkOut e = Some out \<longrightarrow>
               (\<exists>ti to. r_timestamp c = Some ti \<and> r_timestamp out = Some to \<and> ti < to \<and>
                  p_duration e = Some (roundNearest (rat_of_int (to - ti) / 1000 / 60)) \<and>
                  0 \<le> roundNearest (rat_of_int (to - ti) / 1000 / 60)))"
    if "e \<in> set (processedAttendance ?out)" for e
  proof -
    have "e \<in> set (processedAttendance (processAttendance P now attendanceRecords users))"
      using that unfolding out .
    then obtain S where wf: "wellFormedEntry (p_userId e) (p_date e) S e"
      using processed_wellFormed by blast
    have r: "roundMinutes (to - ti) = roundNearest (rat_of_int (to - ti) / 1000 / 60)
        \<and> 0 \<le> roundNearest (rat_of_int (to - ti) / 1000 / 60)" if "ti < to" for ti to :: int
      using that roundMinutes_nonneg[of "to - ti"] roundMinutes_roundNearest[of "to - ti"] by simp
    show ?thesis
      using wf r by (auto simp: wellFormedEntry_def minutesOf_def split: option.splits)
  qed
  have totals: "totalMinutesAllTime (snd entry) =
              sum_list (map minutesOf (filter (\<lambda>e. p_userId e = fst entry) (processedAttendance ?out))) \<and>
            totalMinutesToday (snd entry) =
              sum_list (map minutesOf
                (filter (\<lambda>e. p_userId e = fst entry \<and> p_date e = toLocaleDateString P now)
                  (processedAttendance ?out)))"
    if "entry \<in> set (userStats ?out)" for entry
  proof -
    have "(fst entry, snd entry) \<in> set (userStats (processAttendance P now attendanceRecords users))"
      using that unfolding out by simp
    from userStats_totals[OF this] show ?thesis unfolding out by blast
  qed
  from sessions totals show ?thesis by blast
qed


theorem session_duration_witness:
  "doubleCheckIn \<noteq> [] \<and> [member ''u1''] \<noteq> []
   \<and> map (\<lambda>e. (map_option r_id (p_checkIn e), map_option r_id (p_checkOut e), p_duration e))
        (processedAttendance (attendanceEffect utcPlatform 0 doubleCheckIn [member ''u1'']
           (initialState utcPlatform)))
       = [(None, Some ''d'', None), (Some ''b'', None, None), (Some ''a'', Some ''c'', Some 480)]
   \<and> roundNearest (rat_of_int (17 * hourMs - 9 * hourMs) / 1000 / 60) = 480
   \<and> map (\<lambda>entry. (fst entry, totalMinutesAllTime (snd entry), totalMinutesToday (snd entry)))
        (userStats (attendanceEffect utcPlatform 0 doubleCheckIn [member ''u1'']
           (initialState utcPlatform)))
       = [(''u1'', 480, 480)]
   \<and> sum_list (map minutesOf (filter (\<lambda>e. p_userId e = ''u1'')
        (processedAttendance (attendanceEffect utcPlatform 0 doubleCheckIn [member ''u1'']
           (initialState utcPlatform))))) = 480"
proof -
  let ?out = "attendanceEffect utcPlatform 0 doubleCheckIn [member ''u1''] (initialState utcPlatform)"
  have g: "doubleCheckIn \<noteq> []" "[member ''u1''] \<noteq> []" by (simp_all add: doubleCheckIn_def)
  have s: "map (\<lambda>e. (map_option r_id (p_checkIn e), map_option r_id (p_checkOut e), p_duration e))
        (processedAttendance ?out)
       = [(None, Some ''d'', None), (Some ''b'', None, None), (Some ''a'', Some ''c'', Some 480)]"
    by code_simp
  have r: "roundNearest (rat_of_int (17 * hourMs - 9 * hourMs) / 1000 / 60) = 480"
    by code_simp
  have u: "map (\<lambda>entry. (fst entry, totalMinutesAllTime (snd entry), totalMinutesToday (snd entry)))
        (userStats ?out) = [(''u1'', 480, 480)]"
    by code_simp
  then obtain st where st: "userStats ?out = [(''u1'', st)]" "totalMinutesAllTime st = 480"
    by (auto simp: map_eq_Cons_conv)
  then have "(''u1'', st) \<in> set (userStats ?out)" by simp
  with session_duration[OF g, of utcPlatform 0 "initialState utcPlatform"]
  have "totalMinutesAllTime (snd (''u1'', st)) =
      sum_list (map minutesOf (filter (\<lambda>e. p_userId e = fst (''u1'', st)) (processedAttendance ?out)))"
    by blast
  then have "sum_list (map minutesOf (filter (\<lambda>e. p_userId e = ''u1'') (processedAttendance ?out))) = 480"
    using st(2) by simp
  with g s r u show ?thesis by blast
qed

text \<open>
  Claim C3, as amended. The effect reads the wall clock itself (line 177) to get the date
  of today, which is no parameter of it. The list of sessions does not depend on the clock.
  The statistics do, through the local date of the clock only: two runs on the same records
  and users, from the same state, at times of the same local date, give the same
  sessions, the same user statistics and the same dashboard.
\<close>

theorem attendanceEffect_clock:
  "processedAttendance (attendanceEffect P now attendanceRecords users st)
     = processedAttendance (attendanceEffect P now' attendanceRecords users st)
   \<and> (toLocaleDateString P now = toLocaleDateString P now' \<longrightarrow>
        attendanceEffect P now attendanceRecords users st
          = attendanceEffect P now' attendanceRecords users st)"
  by (simp add: attendanceEffect_def processAttendance_eq)

theorem attendanceEffect_clock_witness:
  "toLocaleDateString utcPlatform 0 = toLocaleDateString utcPlatform hourMs
   \<and> attendanceEffect utcPlatform 0
        [punch ''a'' ''u1'' CheckIn (Some (9 * hourMs)), punch ''b'' ''u1'' CheckOut (Some (17 * hourMs))]
        [member ''u1''] (initialState utcPlatform)
     = attendanceEffect utcPlatform hourMs
        [punch ''a'' ''u1'' CheckIn (Some (9 * hourMs)), punch ''b'' ''u1'' CheckOut (Some (17 * hourMs))]
        [member ''u1''] (initialState utcPlatform)"
proof -
  have h: "toLocaleDateString utcPlatform 0 = toLocaleDateString utcPlatform hourMs"
    by code_simp
  with attendanceEffect_clock[of utcPlatform 0
        "[punch ''a'' ''u1'' CheckIn (Some (9 * hourMs)), punch ''b'' ''u1'' CheckOut (Some (17 * hourMs))]"
        "[member ''u1'']" "initialState utcPlatform" hourMs]
  show ?thesis by blast
qed

theorem attendanceEffect_clock_counterexample:
  "userStats (attendanceEffect utcPlatform 0
        [punch ''a'' ''u1'' CheckIn (Some (9 * hourMs)), punch ''b'' ''u1'' CheckOut (Some (17 * hourMs))]
        [member ''u1''] (initialState utcPlatform))
   \<noteq> userStats (attendanceEffect utcPlatform msPerDay
        [punch ''a'' ''u1'' CheckIn (Some (9 * hourMs)), punch ''b'' ''u1'' CheckOut (Some (17 * hourMs))]
        [member ''u1''] (initialState utcPlatform))"
  by code_simp













text \<open>
  Claim C8, as amended. With no attendance record or no user the effect is not an error
  and does nothing: the three outputs stay what they were. They are empty and zero only as
  long as they are still the initial state.
\<close>

theorem attendanceEffect_empty_input:
  assumes "attendanceRecords = [] \<or> users = []"
  shows "attendanceEffect P now attendanceRecords users st = st"
  using assms by (auto simp: attendanceEffect_def)

theorem attendanceEffect_empty_input_witness:
  "attendanceEffect utcPlatform 0 [] [member ''u1''] (initialState utcPlatform) = initialState utcPlatform
   \<and> processedAttendance (initialState utcPlatform) = []
   \<and> userStats (initialState utcPlatform) = []
   \<and> dashboardStats (initialState utcPlatform)
       = \<lparr>totalUsers = 0, checkedInUsers = 0, todayAttendance = 0, avgHoursToday = 0\<rparr>"
proof -
  have h: "([] :: AttendanceRecord list) = [] \<or> [member ''u1''] = []" by simp
  have "attendanceEffect utcPlatform 0 [] [member ''u1''] (initialState utcPlatform) = initialState utcPlatform"
    by (rule attendanceEffect_empty_input[OF h])
  then show ?thesis by (simp add: initialState_def utcPlatform_def)
qed

theorem attendanceEffect_empty_input_counterexample:
  "attendanceEffect utcPlatform 0 [] [member ''u1'']
     (attendanceEffect utcPlatform 0 [punch ''a'' ''u1'' CheckIn (Some (9 * hourMs))] [member ''u1'']
        (initialState utcPlatform))
   = \<lparr>processedAttendance =
        [\<lparr>p_userId = ''u1'', p_userName = ''u1'', p_userEmail = ''Unknown'', p_date = ''0'',
          p_checkIn = Some (punch ''a'' ''u1'' CheckIn (Some (9 * hourMs))), p_checkOut = None,
          p_duration = None\<rparr>],
      userStats =
        [(''u1'', \<lparr>s_name = Some ''u1'', s_email = None, totalMinutesToday = 0,
                   totalHoursToday = 0, totalMinutesAllTime = 0, totalHoursAllTime = 0\<rparr>)],
      dashboardStats = \<lparr>totalUsers = 1, checkedInUsers = 0, todayAttendance = 1,
                        avgHoursToday = 0\<rparr>\<rparr>"
  by code_simp

text \<open>
  Claim C9. Records whose timestamps fall on different local dates never share a bucket
  of the grouping, and when the effect runs no session has one of them as check-in and the
  other as check-out. A check-in at 23:50 and a check-out at 0:10 of the next day give an
  open session on the first day and an orphan check-out on the second.
\<close>

theorem different_dates_never_paired:
  assumes "dateOf P (r_timestamp a) \<noteq> dateOf P (r_timestamp b)"
    and "attendanceRecords \<noteq> []" "users \<noteq> []"
  shows "(\<forall>entry\<in>set (groupRecords P attendanceRecords). \<forall>day\<in>set (snd entry).
            \<not> (a \<in> set (snd day) \<and> b \<in> set (snd day)))
       \<and> (\<forall>e\<in>set (processedAttendance (attendanceEffect P now attendanceRecords users st)).
            \<not> (p_checkIn e = Some a \<and> p_checkOut e = Some b))"
proof -
  let ?out = "attendanceEffect P now attendanceRecords users st"
  have out: "?out = processAttendance P now attendanceRecords users"
    using assms(2,3) by (rule attendanceEffect_guard)
  have "\<not> (a \<in> set (snd day) \<and> b \<in> set (snd day))"
    if "entry \<in> set (groupRecords P attendanceRecords)" "day \<in> set (snd entry)" for entry day
  proof -
    have "byDateInv P (fst entry) (snd entry)"
      using bucketsInv_group[of P attendanceRecords] that(1) unfolding bucketsInv_def by blast
    then have same: "\<forall>r\<in>set (snd day). dateOf P (r_timestamp r) = fst day"
      using that(2) unfolding byDateInv_def by blast
    show ?thesis
    proof
      assume "a \<in> set (snd day) \<and> b \<in> set (snd day)"
      with same have "dateOf P (r_timestamp a) = fst day" "dateOf P (r_timestamp b) = fst day"
        by simp_all
      with assms(1) show False by simp
    qed
  qed
  moreover have "\<not> (p_checkIn e = Some a \<and> p_checkOut e = Some b)"
    if "e \<in> set (processedAttendance ?out)" for e
  proof
    assume ab: "p_checkIn e = Some a \<and> p_checkOut e = Some b"
    have "e \<in> set (processedAttendance (processAttendance P now attendanceRecords users))"
      using that unfolding out .
    then have "\<exists>S. (\<forall>r\<in>S. r \<in> set attendanceRecords \<and> r_userId r = p_userId e
            \<and> dateOf P (r_timestamp r) = p_date e)
          \<and> knownUser users (p_userId e) \<and> wellFormedEntry (p_userId e) (p_date e) S e"
      by (rule processed_wellFormed)
    then obtain S where S: "\<forall>r\<in>S. dateOf P (r_timestamp r) = p_date e"
        "wellFormedEntry (p_userId e) (p_date e) S e"
      by blast
    from S(2) ab have "a \<in> S" "b \<in> S" by (simp_all add: wellFormedEntry_def)
    with S(1) have "dateOf P (r_timestamp a) = dateOf P (r_timestamp b)" by simp
    with assms(1) show False by simp
  qed
  ultimately show ?thesis by blast
qed

theorem different_dates_never_paired_witness:
  "dateOf utcPlatform (Some (23 * hourMs + 50 * minuteMs))
     \<noteq> dateOf utcPlatform (Some (msPerDay + 10 * minuteMs))
   \<and> acrossMidnight \<noteq> [] \<and> [member ''u1''] \<noteq> []
   \<and> map (\<lambda>e. (p_date e, map_option r_id (p_checkIn e), map_option r_id (p_checkOut e), p_duration e))
        (processedAttendance (attendanceEffect utcPlatform 0 acrossMidnight [member ''u1'']
           (initialState utcPlatform)))
       = [(''1'', None, Some ''b'', None), (''0'', Some ''a'', None, None)]
   \<and> \<not> (\<exists>e\<in>set (processedAttendance (attendanceEffect utcPlatform 0 acrossMidnight
              [member ''u1''] (initialState utcPlatform))).
          p_checkIn e = Some (punch ''a'' ''u1'' CheckIn (Some (23 * hourMs + 50 * minuteMs))) \<and>
          p_checkOut e = Some (punch ''b'' ''u1'' CheckOut (Some (msPerDay + 10 * minuteMs))))"
proof -
  let ?a = "punch ''a'' ''u1'' CheckIn (Some (23 * hourMs + 50 * minuteMs))"
  let ?b = "punch ''b'' ''u1'' CheckOut (Some (msPerDay + 10 * minuteMs))"
  have d: "dateOf utcPlatform (Some (23 * hourMs + 50 * minuteMs))
     \<noteq> dateOf utcPlatform (Some (msPerDay + 10 * minuteMs))"
    by code_simp
  then have d': "dateOf utcPlatform (r_timestamp ?a) \<noteq> dateOf utcPlatform (r_timestamp ?b)"
    by (simp add: punch_def)
  have g: "acrossMidnight \<noteq> []" "[member ''u1''] \<noteq> []" by (simp_all add: acrossMidnight_def)
  have s: "map (\<lambda>e. (p_date e, map_option r_id (p_checkIn e), map_option r_id (p_checkOut e), p_duration e))
        (processedAttendance (attendanceEffect utcPlatform 0 acrossMidnight [member ''u1'']
           (initialState utcPlatform)))
       = [(''1'', None, Some ''b'', None), (''0'', Some ''a'', None, None)]"
    by code_simp
  from different_dates_never_paired[OF d' g, of 0 "initialState utcPlatform"]
  have "\<not> (\<exists>e\<in>set (processedAttendance (attendanceEffect utcPlatform 0 acrossMidnight
              [member ''u1''] (initialState utcPlatform))).
          p_checkIn e = Some ?a \<and> p_checkOut e = Some ?b)"
    by blast
  with d g s show ?thesis by blast
qed

text \<open>
  Claim C10. When the effect runs, a session whose check-out is less than thirty seconds
  after its check-in has a duration, and that duration is zero minutes: it adds nothing to
  a total, and differs from an open session, which has no check-out and no duration. Such
  sessions occur: a check-out twenty seconds after the check-in gives one.
\<close>

theorem short_session_zero_minutes:
  assumes "attendanceRecords \<noteq> []" "users \<noteq> []"
    and "e \<in> set (processedAttendance (attendanceEffect P now attendanceRecords users st))"
    and "p_checkIn e = Some c" "p_checkOut e = Some out"
    and "r_timestamp c = Some ti" "r_timestamp out = Some to" "to - ti < 30000"
  shows "ti < to \<and> p_duration e = Some 0 \<and> minutesOf e = 0"
proof -
  have "e \<in> set (processedAttendance (processAttendance P now attendanceRecords users))"
    using assms(1-3) by (simp add: attendanceEffect_guard)
  then obtain S where "wellFormedEntry (p_userId e) (p_date e) S e"
    using processed_wellFormed by blast
  then have "ti < to" "p_duration e = Some (roundMinutes (to - ti))"
    using assms(4-7) by (auto simp: wellFormedEntry_def)
  moreover have "roundMinutes (to - ti) = 0"
    using \<open>ti < to\<close> assms(8) by (simp add: roundMinutes_def)
  ultimately show ?thesis by (simp add: minutesOf_def)
qed

theorem short_session_zero_minutes_witness:
  "shortVisit \<noteq> [] \<and> [member ''u1''] \<noteq> []
   \<and> map (\<lambda>e. (p_checkIn e, p_checkOut e))
        (processedAttendance (attendanceEffect utcPlatform 0 shortVisit [member ''u1'']
           (initialState utcPlatform)))
     = [(Some (punch ''a'' ''u1'' CheckIn (Some (9 * hourMs))),
         Some (punch ''b'' ''u1'' CheckOut (Some (9 * hourMs + 20000))))]
   \<and> (9 * hourMs + 20000) - 9 * hourMs < 30000
   \<and> map p_duration
        (processedAttendance (attendanceEffect utcPlatform 0 shortVisit [member ''u1'']
           (initialState utcPlatform)))
     = [Some 0]
   \<and> map (\<lambda>entry. (fst entry, totalMinutesAllTime (snd entry), totalMinutesToday (snd entry)))
        (userStats (attendanceEffect utcPlatform 0 shortVisit [member ''u1'']
           (initialState utcPlatform)))
       = [(''u1'', 0, 0)]"
proof -
  let ?out = "attendanceEffect utcPlatform 0 shortVisit [member ''u1''] (initialState utcPlatform)"
  let ?a = "punch ''a'' ''u1'' CheckIn (Some (9 * hourMs))"
  let ?b = "punch ''b'' ''u1'' CheckOut (Some (9 * hourMs + 20000))"
  have g: "shortVisit \<noteq> []" "[member ''u1''] \<noteq> []" by (simp_all add: shortVisit_def)
  have s: "map (\<lambda>e. (p_checkIn e, p_checkOut e)) (processedAttendance ?out) = [(Some ?a, Some ?b)]"
    by code_simp
  then obtain e where e: "processedAttendance ?out = [e]" "p_checkIn e = Some ?a"
      "p_checkOut e = Some ?b"
    by (auto simp: map_eq_Cons_conv)
  have gap: "(9 * hourMs + 20000) - 9 * hourMs < 30000" by simp
  have ta: "r_timestamp ?a = Some (9 * hourMs)" and tb: "r_timestamp ?b = Some (9 * hourMs + 20000)"
    by (simp_all add: punch_def)
  have mem: "e \<in> set (processedAttendance ?out)" using e(1) by simp
  have "p_duration e = Some 0"
    using short_session_zero_minutes[OF g mem e(2) e(3) ta tb gap] by blast
  then have d: "map p_duration (processedAttendance ?out) = [Some 0]"
    using e(1) by simp
  have u: "map (\<lambda>entry. (fst entry, totalMinutesAllTime (snd entry), totalMinutesToday (snd entry)))
        (userStats ?out) = [(''u1'', 0, 0)]"
    by code_simp
  from g s gap d u show ?thesis by blast
qed

end
